theory Spec2Isabelle
  imports Complex_Main
begin

section \<open>Numbers\<close>

text \<open>
  Both modules compute with double-precision floating-point numbers.  The numbers of the
  model are real numbers; the two roundings that the source itself performs are defined
  here.

  \<open>rint\<close> is \<open>np.rint\<close>: the nearest integer, a tie going to the even one.
\<close>

definition rint :: "real \<Rightarrow> real" where
  "rint x =
     (let f = \<lfloor>x\<rfloor>; d = x - of_int f
      in if d < 1 / 2 then of_int f
         else if 1 / 2 < d then of_int (f + 1)
         else if even f then of_int f else of_int (f + 1))"

text \<open>
  \<open>float64\<close> is the double nearest to a real number, a tie going to the even significand:
  a number between \<open>2\<^sup>e\<close> and \<open>2\<^sup>e\<^sup>+\<^sup>1\<close> is rounded to a multiple of \<open>2\<^sup>e\<^sup>-\<^sup>5\<^sup>2\<close>.  The range of the
  exponent is not limited (no overflow, no subnormal numbers).  \<open>py_float\<close> is the conversion
  of a Python integer to a float, and \<open>half_over n\<close> is the Python expression \<open>0.5/n\<close> for
  an integer \<open>n\<close> that is not zero.
\<close>

definition float64 :: "real \<Rightarrow> real" where
  "float64 x =
     (if x = 0 then 0
      else (let u = 2 powr (of_int \<lfloor>log 2 \<bar>x\<bar>\<rfloor> - 52) in rint (x / u) * u))"

definition py_float :: "int \<Rightarrow> real" where
  "py_float n = float64 (real_of_int n)"

definition half_over :: "int \<Rightarrow> real" where
  "half_over n = float64 (0.5 / py_float n)"


section \<open>The integrators module: ufedmm/integrators.py\<close>

subsection \<open>Step programs of a custom integrator\<close>

text \<open>
  The integrator classes describe one time step as a list of computation steps.  The source
  writes each expression as a string of the engine's expression language; here every such
  string is kept as its syntax tree.  A variable of an expression is either a global one
  (\<open>dt\<close>, \<open>friction\<close>, \<open>irattle\<close>), a per-degree-of-freedom one (\<open>x\<close>, \<open>v\<close>, \<open>m\<close>, \<open>f\<close>,
  \<open>gaussian\<close>, \<open>kT\<close>, \<open>x0\<close>), or an intermediate one defined after a semicolon (\<open>z\<close>).
  Floating-point numbers are read as the real numbers they stand for.
\<close>

datatype expr =
    Const real
  | Global string
  | PerDof string
  | Local string
  | Add expr expr
  | Sub expr expr
  | Mul expr expr
  | Div expr expr
  | Neg expr
  | Sqrt expr
  | Exp expr
  | Less expr expr
  | Where expr string expr

text \<open>
  The nine kinds of computation step, in the order of the table \<open>step_type_str\<close> of
  \<open>CustomIntegrator.__repr__\<close> (step types 0 to 8).
\<close>

datatype step =
    ComputeGlobal string expr
  | ComputePerDof string expr
  | ComputeSum string expr
  | ConstrainPositions
  | ConstrainVelocities
  | UpdateContextState
  | BeginIfBlock expr
  | BeginWhileBlock expr
  | EndBlock

record integrator =
  step_size :: real
  per_dof_variables :: "(string \<times> real) list"
  global_variables :: "(string \<times> real) list"
  computations :: "step list"

record GeodesicBAOAB = integrator +
  rattles :: int

text \<open>
  The methods inherited from the engine's integrator class: each one appends to one of the
  lists of the object.
\<close>

definition openmm_CustomIntegrator :: "real \<Rightarrow> integrator" where
  "openmm_CustomIntegrator dt =
     \<lparr>step_size = dt, per_dof_variables = [], global_variables = [], computations = []\<rparr>"

definition addPerDofVariable ::
  "string \<Rightarrow> real \<Rightarrow> 'a integrator_scheme \<Rightarrow> 'a integrator_scheme" where
  "addPerDofVariable name val self =
     self\<lparr>per_dof_variables := per_dof_variables self @ [(name, val)]\<rparr>"

definition addGlobalVariable ::
  "string \<Rightarrow> real \<Rightarrow> 'a integrator_scheme \<Rightarrow> 'a integrator_scheme" where
  "addGlobalVariable name val self =
     self\<lparr>global_variables := global_variables self @ [(name, val)]\<rparr>"

definition addStep :: "step \<Rightarrow> 'a integrator_scheme \<Rightarrow> 'a integrator_scheme" where
  "addStep s self = self\<lparr>computations := computations self @ [s]\<rparr>"

definition addComputeGlobal ::
  "string \<Rightarrow> expr \<Rightarrow> 'a integrator_scheme \<Rightarrow> 'a integrator_scheme" where
  "addComputeGlobal name e = addStep (ComputeGlobal name e)"

definition addComputePerDof ::
  "string \<Rightarrow> expr \<Rightarrow> 'a integrator_scheme \<Rightarrow> 'a integrator_scheme" where
  "addComputePerDof name e = addStep (ComputePerDof name e)"

definition addConstrainPositions :: "'a integrator_scheme \<Rightarrow> 'a integrator_scheme" where
  "addConstrainPositions = addStep ConstrainPositions"

definition addConstrainVelocities :: "'a integrator_scheme \<Rightarrow> 'a integrator_scheme" where
  "addConstrainVelocities = addStep ConstrainVelocities"

definition addUpdateContextState :: "'a integrator_scheme \<Rightarrow> 'a integrator_scheme" where
  "addUpdateContextState = addStep UpdateContextState"

definition beginWhileBlock :: "expr \<Rightarrow> 'a integrator_scheme \<Rightarrow> 'a integrator_scheme" where
  "beginWhileBlock cond = addStep (BeginWhileBlock cond)"

definition endBlock :: "'a integrator_scheme \<Rightarrow> 'a integrator_scheme" where
  "endBlock = addStep EndBlock"

subsection \<open>CustomIntegrator and GeodesicBAOABIntegrator\<close>

text \<open>
  \<open>CustomIntegrator.__init__\<close>: the engine's constructor, then the per-dof variable \<open>kT\<close>.
  The molar gas constant \<open>unit.MOLAR_GAS_CONSTANT_R\<close> belongs to the engine's unit package
  and is the parameter \<open>R\<close>.
\<close>

definition CustomIntegrator_init :: "real \<Rightarrow> real \<Rightarrow> real \<Rightarrow> integrator" where
  "CustomIntegrator_init R temperature dt =
     addPerDofVariable ''kT'' (R * temperature) (openmm_CustomIntegrator dt)"

text \<open>
  The expression strings of the source, parsed.  The methods \<open>_A\<close>, \<open>_B\<close> and \<open>_O\<close> are
  \<open>A_step\<close>, \<open>B_step\<close> and \<open>O_step\<close> below.

  The two coefficients that \<open>_A\<close> computes and formats into its strings are doubles: the
  quotient \<open>0.5/max(1, self._rattles)\<close> or \<open>0.5/self._rattles\<close>, rounded.  The string of a
  double (its shortest decimal form that reads back as the same double) denotes that
  double, so the constant of the expression is the rounded quotient, not \<open>1/(2 r)\<close>.
\<close>

definition kick_expr :: expr where
  \<comment> \<open>\<open>v + 0.5*dt*f/m\<close>\<close>
  "kick_expr =
     Add (PerDof ''v'') (Div (Mul (Mul (Const 0.5) (Global ''dt'')) (PerDof ''f'')) (PerDof ''m''))"

definition drift_expr :: "int \<Rightarrow> expr" where
  \<comment> \<open>\<open>f'x + {0.5/max(1, self._rattles)}*dt*v'\<close>\<close>
  "drift_expr r =
     Add (PerDof ''x'')
         (Mul (Mul (Const (half_over (max 1 r))) (Global ''dt'')) (PerDof ''v''))"

definition correction_expr :: "int \<Rightarrow> expr" where
  \<comment> \<open>\<open>f'v + (x - x0)/({0.5/self._rattles}*dt)'\<close>\<close>
  "correction_expr r =
     Add (PerDof ''v'')
         (Div (Sub (PerDof ''x'') (PerDof ''x0''))
              (Mul (Const (half_over r)) (Global ''dt'')))"

definition ou_expr :: expr where
  \<comment> \<open>\<open>z*v + sqrt((1 - z*z)*kT/m)*gaussian; z = exp(-friction*dt)\<close>\<close>
  "ou_expr =
     Where
       (Add (Mul (Local ''z'') (PerDof ''v''))
            (Mul (Sqrt (Div (Mul (Sub (Const 1) (Mul (Local ''z'') (Local ''z''))) (PerDof ''kT''))
                            (PerDof ''m'')))
                 (PerDof ''gaussian'')))
       ''z'' (Exp (Mul (Neg (Global ''friction'')) (Global ''dt'')))"

definition loop_cond :: "int \<Rightarrow> expr" where
  \<comment> \<open>\<open>f'irattle < {self._rattles}'\<close>\<close>
  "loop_cond r = Less (Global ''irattle'') (Const (real_of_int r))"

definition A_step :: "'a GeodesicBAOAB_scheme \<Rightarrow> 'a GeodesicBAOAB_scheme" where
  "A_step self =
    (let self = (if rattles self > 1
                 then beginWhileBlock (loop_cond (rattles self))
                        (addComputeGlobal ''irattle'' (Const 0) self)
                 else self);
         self = addComputePerDof ''x'' (drift_expr (rattles self)) self;
         self = (if rattles self > 0
                 then addConstrainVelocities
                        (addComputePerDof ''v'' (correction_expr (rattles self))
                          (addConstrainPositions
                            (addComputePerDof ''x0'' (PerDof ''x'') self)))
                 else self)
     in if rattles self > 1
        then endBlock (addComputeGlobal ''irattle'' (Add (Global ''irattle'') (Const 1)) self)
        else self)"

definition B_step :: "'a GeodesicBAOAB_scheme \<Rightarrow> 'a GeodesicBAOAB_scheme" where
  "B_step self =
    (let self = addComputePerDof ''v'' kick_expr self
     in if rattles self > 0 then addConstrainVelocities self else self)"

definition O_step :: "'a GeodesicBAOAB_scheme \<Rightarrow> 'a GeodesicBAOAB_scheme" where
  "O_step self =
    (let self = addComputePerDof ''v'' ou_expr self
     in if rattles self > 0 then addConstrainVelocities self else self)"

definition GeodesicBAOABIntegrator ::
  "real \<Rightarrow> real \<Rightarrow> real \<Rightarrow> real \<Rightarrow> int \<Rightarrow> GeodesicBAOAB" where
  "GeodesicBAOABIntegrator R temperature friction_coefficient dt r =
    (let self = integrator.extend (CustomIntegrator_init R temperature dt)
                  (GeodesicBAOAB.fields r);
         self = addGlobalVariable ''friction'' friction_coefficient self;
         self = (if r > 1 then addGlobalVariable ''irattle'' 0 self else self);
         self = addPerDofVariable ''x0'' 0 self;
         self = addUpdateContextState self
     in B_step (A_step (O_step (A_step (B_step self)))))"

subsection \<open>Executing a step program\<close>

text \<open>
  The engine that executes the program is outside the repository.  Its documented behaviour
  is modelled as an interpreter: a simulation state holds the global and the per-dof
  variables (a per-dof variable is a vector indexed by the degree of freedom), the force
  evaluation, the random numbers, the two constraint projections and the state update by the
  forces are operations of the engine, taken as parameters.  The engine resolves every name
  when it is given the program, so variables are looked up in total maps.
\<close>

record sim_state =
  globals :: "string \<Rightarrow> real"
  perdof :: "string \<Rightarrow> nat \<Rightarrow> real"
  ndof :: nat
  draws :: nat

record engine =
  engine_forces :: "(nat \<Rightarrow> real) \<Rightarrow> nat \<Rightarrow> real"
  gaussian :: "nat \<Rightarrow> nat \<Rightarrow> real"
  constrain_positions :: "sim_state \<Rightarrow> nat \<Rightarrow> real"
  constrain_velocities :: "sim_state \<Rightarrow> nat \<Rightarrow> real"
  update_context_state :: "sim_state \<Rightarrow> sim_state"

fun eval :: "engine \<Rightarrow> sim_state \<Rightarrow> nat \<Rightarrow> (string \<Rightarrow> real) \<Rightarrow> expr \<Rightarrow> real" where
  "eval eng st i loc (Const c) = c"
| "eval eng st i loc (Global n) = globals st n"
| "eval eng st i loc (PerDof n) =
     (if n = ''f'' then engine_forces eng (perdof st ''x'') i
      else if n = ''gaussian'' then gaussian eng (draws st) i
      else perdof st n i)"
| "eval eng st i loc (Local n) = loc n"
| "eval eng st i loc (Add a b) = eval eng st i loc a + eval eng st i loc b"
| "eval eng st i loc (Sub a b) = eval eng st i loc a - eval eng st i loc b"
| "eval eng st i loc (Mul a b) = eval eng st i loc a * eval eng st i loc b"
| "eval eng st i loc (Div a b) = eval eng st i loc a / eval eng st i loc b"
| "eval eng st i loc (Neg a) = - eval eng st i loc a"
| "eval eng st i loc (Sqrt a) = sqrt (eval eng st i loc a)"
| "eval eng st i loc (Exp a) = exp (eval eng st i loc a)"
| "eval eng st i loc (Less a b) = (if eval eng st i loc a < eval eng st i loc b then 1 else 0)"
| "eval eng st i loc (Where e n d) = eval eng st i (loc(n := eval eng st i loc d)) e"

fun uses_gaussian :: "expr \<Rightarrow> bool" where
  "uses_gaussian (PerDof n) = (n = ''gaussian'')"
| "uses_gaussian (Add a b) = (uses_gaussian a \<or> uses_gaussian b)"
| "uses_gaussian (Sub a b) = (uses_gaussian a \<or> uses_gaussian b)"
| "uses_gaussian (Mul a b) = (uses_gaussian a \<or> uses_gaussian b)"
| "uses_gaussian (Div a b) = (uses_gaussian a \<or> uses_gaussian b)"
| "uses_gaussian (Less a b) = (uses_gaussian a \<or> uses_gaussian b)"
| "uses_gaussian (Where e n d) = (uses_gaussian e \<or> uses_gaussian d)"
| "uses_gaussian (Neg a) = uses_gaussian a"
| "uses_gaussian (Sqrt a) = uses_gaussian a"
| "uses_gaussian (Exp a) = uses_gaussian a"
| "uses_gaussian _ = False"


text \<open>The effect of one step on the variables; the block steps change none.\<close>

fun do_step :: "engine \<Rightarrow> step \<Rightarrow> sim_state \<Rightarrow> sim_state" where
  "do_step eng (ComputeGlobal n e) st =
     st\<lparr>globals := (globals st)(n := eval eng st 0 (\<lambda>_. 0) e)\<rparr>"
| "do_step eng (ComputePerDof n e) st =
     st\<lparr>perdof := (perdof st)(n := (\<lambda>i. eval eng st i (\<lambda>_. 0) e)),
        draws := (if uses_gaussian e then Suc (draws st) else draws st)\<rparr>"
| "do_step eng (ComputeSum n e) st =
     st\<lparr>globals := (globals st)(n := (\<Sum>i \<leftarrow> [0..<ndof st]. eval eng st i (\<lambda>_. 0) e)),
        draws := (if uses_gaussian e then Suc (draws st) else draws st)\<rparr>"
| "do_step eng ConstrainPositions st =
     st\<lparr>perdof := (perdof st)(''x'' := constrain_positions eng st)\<rparr>"
| "do_step eng ConstrainVelocities st =
     st\<lparr>perdof := (perdof st)(''v'' := constrain_velocities eng st)\<rparr>"
| "do_step eng UpdateContextState st = update_context_state eng st"
| "do_step eng _ st = st"

text \<open>
  Blocks: a block begins at an if or while step and ends at the matching end step.
  \<open>block_end\<close> finds the end of the block that begins at a position, scanning forward
  and counting the blocks opened on the way; \<open>block_begin\<close> finds the beginning of the block
  that ends at a position, scanning backward in the same way.
\<close>

fun find_end :: "step list \<Rightarrow> nat \<Rightarrow> nat \<Rightarrow> nat option" where
  "find_end [] i d = None"
| "find_end (EndBlock # ss) i d = (if d = 0 then Some i else find_end ss (Suc i) (d - 1))"
| "find_end (BeginIfBlock c # ss) i d = find_end ss (Suc i) (Suc d)"
| "find_end (BeginWhileBlock c # ss) i d = find_end ss (Suc i) (Suc d)"
| "find_end (s # ss) i d = find_end ss (Suc i) d"

definition block_end :: "step list \<Rightarrow> nat \<Rightarrow> nat option" where
  "block_end prog i = find_end (drop (Suc i) prog) (Suc i) 0"

fun is_begin :: "step \<Rightarrow> bool" where
  "is_begin (BeginIfBlock c) = True"
| "is_begin (BeginWhileBlock c) = True"
| "is_begin _ = False"

fun find_begin :: "step list \<Rightarrow> nat \<Rightarrow> nat \<Rightarrow> nat option" where
  "find_begin [] j d = None"
| "find_begin (EndBlock # ss) j d = find_begin ss (j - 1) (Suc d)"
| "find_begin (s # ss) j d =
     (if is_begin s then (if d = 0 then Some (j - 1) else find_begin ss (j - 1) (d - 1))
      else find_begin ss (j - 1) d)"

definition block_begin :: "step list \<Rightarrow> nat \<Rightarrow> nat option" where
  "block_begin prog j = find_begin (rev (take j prog)) j 0"

text \<open>
  A configuration is the state, the position of the next step and the positions of the
  steps executed so far, oldest first.  A false condition skips to the step after the end
  of the block; the end of a while block returns to its beginning.  A block without its
  counterpart is malformed.
\<close>

type_synonym config = "sim_state \<times> nat \<times> nat list"

datatype outcome = Finished config | OutOfFuel | Malformed

definition enter_block :: "engine \<Rightarrow> step list \<Rightarrow> expr \<Rightarrow> config \<Rightarrow> config option" where
  "enter_block eng prog c cfg =
     (case cfg of (st, pc, tr) \<Rightarrow>
        if eval eng st 0 (\<lambda>_. 0) c \<noteq> 0 then Some (st, Suc pc, tr @ [pc])
        else (case block_end prog pc of
                None \<Rightarrow> None
              | Some j \<Rightarrow> Some (st, Suc j, tr @ [pc])))"

definition exec_step :: "engine \<Rightarrow> step list \<Rightarrow> config \<Rightarrow> config option" where
  "exec_step eng prog cfg =
     (case cfg of (st, pc, tr) \<Rightarrow>
        (case prog ! pc of
           BeginIfBlock c \<Rightarrow> enter_block eng prog c cfg
         | BeginWhileBlock c \<Rightarrow> enter_block eng prog c cfg
         | EndBlock \<Rightarrow>
             (case block_begin prog pc of
                None \<Rightarrow> None
              | Some b \<Rightarrow>
                  (case prog ! b of
                     BeginWhileBlock c \<Rightarrow> Some (st, b, tr @ [pc])
                   | _ \<Rightarrow> Some (st, Suc pc, tr @ [pc])))
         | s \<Rightarrow> Some (do_step eng s st, Suc pc, tr @ [pc])))"

fun run :: "engine \<Rightarrow> step list \<Rightarrow> nat \<Rightarrow> config \<Rightarrow> outcome" where
  "run eng prog fuel (st, pc, tr) =
     (if length prog \<le> pc then Finished (st, pc, tr)
      else (case fuel of
              0 \<Rightarrow> OutOfFuel
            | Suc k \<Rightarrow>
                (case exec_step eng prog (st, pc, tr) of
                   None \<Rightarrow> Malformed
                 | Some cfg \<Rightarrow> run eng prog k cfg)))"



subsection \<open>Auxiliary definitions for the step program\<close>

text \<open>
  Names for parts of the program and of its execution, used in the statements below: the six
  steps of one constrained substep, the while block around them, the effect of a list of plain
  steps, the steps one method adds to an object that has none, and the positions visited by a
  step of the program with a while block in each drift.
\<close>

definition substep_steps :: "int \<Rightarrow> step list" where
  "substep_steps r = [ComputePerDof ''x'' (drift_expr r),
     ComputePerDof ''x0'' (PerDof ''x''), ConstrainPositions,
     ComputePerDof ''v'' (correction_expr r), ConstrainVelocities,
     ComputeGlobal ''irattle'' (Add (Global ''irattle'') (Const 1))]"

definition while_block :: "int \<Rightarrow> step list" where
  "while_block r = BeginWhileBlock (loop_cond r) # substep_steps r @ [EndBlock]"

definition run_steps :: "engine \<Rightarrow> step list \<Rightarrow> sim_state \<Rightarrow> sim_state" where
  "run_steps eng ss st = fold (do_step eng) ss st"

definition substep :: "engine \<Rightarrow> int \<Rightarrow> sim_state \<Rightarrow> sim_state" where
  "substep eng r st = run_steps eng (substep_steps r) st"

definition steps_of :: "(GeodesicBAOAB \<Rightarrow> GeodesicBAOAB) \<Rightarrow> int \<Rightarrow> step list" where
  "steps_of method r =
     computations (method (integrator.extend (openmm_CustomIntegrator 0) (GeodesicBAOAB.fields r)))"

definition trace_looping :: "nat \<Rightarrow> nat list" where
  "trace_looping n = [0..<4] @ concat (replicate n [4..<12]) @ [4] @ [12..<15] @
                     concat (replicate n [15..<23]) @ [15] @ [23..<25]"

definition looping_result :: "engine \<Rightarrow> int \<Rightarrow> sim_state \<Rightarrow> sim_state" where
  "looping_result eng r st =
    (let st = run_steps eng [UpdateContextState, ComputePerDof ''v'' kick_expr,
                ConstrainVelocities, ComputeGlobal ''irattle'' (Const 0)] st;
         st = (substep eng r ^^ nat r) st;
         st = run_steps eng [ComputePerDof ''v'' ou_expr, ConstrainVelocities,
                ComputeGlobal ''irattle'' (Const 0)] st;
         st = (substep eng r ^^ nat r) st
     in run_steps eng [ComputePerDof ''v'' kick_expr, ConstrainVelocities] st)"


text \<open>A concrete engine without constraints and a concrete state, for instances.\<close>

definition free_engine :: engine where
  "free_engine =
     \<lparr>engine_forces = (\<lambda>x i. - x i), gaussian = (\<lambda>k i. 0),
      constrain_positions = (\<lambda>s. perdof s ''x''),
      constrain_velocities = (\<lambda>s. perdof s ''v''),
      update_context_state = (\<lambda>s. s)\<rparr>"

definition example_state :: sim_state where
  "example_state =
     \<lparr>globals = (\<lambda>n. if n = ''dt'' then 2 else if n = ''friction'' then 10 else 0),
      perdof = (\<lambda>n i. if n = ''x'' then 1 else if n = ''v'' then 3 else if n = ''m'' then 1
                       else if n = ''kT'' then 300 else 0),
      ndof = 1, draws = 0\<rparr>"




section \<open>The analysis module: ufedmm/analysis.py\<close>

subsection \<open>Errors, collective variables and the sample table\<close>

text \<open>
  The exceptions that the module and the library functions it calls can raise.  The last two
  constructors stand for the two error classes of the specification (a configuration error
  and an insufficient-data error); no statement of the module raises them.
\<close>

datatype error =
    TypeError | KeyError | IndexError | ValueError | ZeroDivisionError | NameError
  | LinAlgError | ConfigurationError | InsufficientDataError

text \<open>
  The class of the collective variables is not part of the module; the record has the
  attributes that the module reads (\<open>cv_id\<close> is \<open>id\<close>, \<open>cv_range\<close> is \<open>_range\<close>).
  Floating-point numbers are read as real numbers.
\<close>

record CollectiveVariable =
  cv_id :: string
  periodic :: bool
  min_value :: real
  max_value :: real
  force_constant :: real
  cv_range :: real

record UnifiedFreeEnergyDynamics =
  variables :: "CollectiveVariable list"

text \<open>The data frame: a column of numbers for each column name.\<close>

type_synonym dataframe = "string \<rightharpoonup> real list"

definition bnd :: "error + 'a \<Rightarrow> ('a \<Rightarrow> error + 'b) \<Rightarrow> error + 'b" where
  "bnd m f = (case m of Inl e \<Rightarrow> Inl e | Inr a \<Rightarrow> f a)"

text \<open>A list comprehension or loop whose body can raise: the first error ends it.\<close>

fun mapM :: "('a \<Rightarrow> error + 'b) \<Rightarrow> 'a list \<Rightarrow> error + 'b list" where
  "mapM f [] = Inr []"
| "mapM f (x # xs) =
     (case f x of
        Inl e \<Rightarrow> Inl e
      | Inr y \<Rightarrow> (case mapM f xs of Inl e \<Rightarrow> Inl e | Inr ys \<Rightarrow> Inr (y # ys)))"

text \<open>Indexing a list or an array: a negative index counts from the end.\<close>

definition py_index :: "'a list \<Rightarrow> int \<Rightarrow> error + 'a" where
  "py_index xs i =
     (if 0 \<le> i \<and> i < int (length xs) then Inr (xs ! nat i)
      else if i < 0 \<and> - int (length xs) \<le> i then Inr (xs ! nat (int (length xs) + i))
      else Inl IndexError)"

subsection \<open>Analyzer.__init__\<close>

text \<open>The function \<open>function\<close> defined in the loop over the collective variables.\<close>

definition force_function :: "CollectiveVariable \<Rightarrow> real \<Rightarrow> real" where
  "force_function cv dx =
     (if periodic cv then force_constant cv * (dx - cv_range cv * rint (dx / cv_range cv))
      else force_constant cv * dx)"

text \<open>
  The loop over the collective variables: the sampled positions, the forces and the ranges.
  A column that the data frame lacks raises a key error.
\<close>

fun collect ::
  "CollectiveVariable list \<Rightarrow> dataframe \<Rightarrow>
   error + (real list list \<times> real list list \<times> (real \<times> real) list)" where
  "collect [] df = Inr ([], [], [])"
| "collect (cv # cvs) df =
     (case df (''s_'' @ cv_id cv) of
        None \<Rightarrow> Inl KeyError
      | Some s \<Rightarrow>
          (case df (cv_id cv) of
             None \<Rightarrow> Inl KeyError
           | Some c \<Rightarrow>
               (case collect cvs df of
                  Inl e \<Rightarrow> Inl e
                | Inr (sample, forces, ranges) \<Rightarrow>
                    Inr (s # sample,
                         map (force_function cv) (map2 (-) c s) # forces,
                         (min_value cv, max_value cv) # ranges))))"

text \<open>
  \<open>stats.binned_statistic_dd\<close> belongs to a library and is a parameter: \<open>binned_count\<close>
  is the flattened statistic of the call that counts, \<open>binned_mean\<close> gives the flattened
  statistic of each value array of the call that averages.  Their arguments are the sample,
  the values, the bins and the ranges.
\<close>

record scipy_stats =
  binned_count :: "real list list \<Rightarrow> int list \<Rightarrow> (real \<times> real) list \<Rightarrow> error + real list"
  binned_mean ::
    "real list list \<Rightarrow> real list list \<Rightarrow> int list \<Rightarrow> (real \<times> real) list
     \<Rightarrow> error + real list list"

datatype bins_arg = BinsScalar int | BinsList "int list"

record Analyzer =
  ufed_of :: UnifiedFreeEnergyDynamics
  bins_of :: "int list"
  histogram :: "real list"
  centers :: "real list list"
  mean_forces :: "real list list"

text \<open>\<open>np.where(histogram > 0)\<close> and the selection \<open>a[index]\<close> of an array.\<close>

definition np_where_positive :: "real list \<Rightarrow> nat list" where
  "np_where_positive h = filter (\<lambda>i. 0 < h ! i) [0..<length h]"

definition take_index :: "real list \<Rightarrow> nat list \<Rightarrow> error + real list" where
  "take_index a index =
     (if list_all (\<lambda>i. i < length a) index then Inr (map ((!) a) index) else Inl IndexError)"

definition Analyzer_init ::
  "scipy_stats \<Rightarrow> UnifiedFreeEnergyDynamics \<Rightarrow> dataframe \<Rightarrow> bins_arg \<Rightarrow> error + Analyzer" where
  "Analyzer_init stats ufed df bins =
     (let bins_list = (case bins of
                         BinsList bs \<Rightarrow> bs
                       | BinsScalar b \<Rightarrow> replicate (length (variables ufed)) b)
      in bnd (collect (variables ufed) df) (\<lambda>(sample, forces, ranges).
         bnd (binned_count stats sample bins_list ranges) (\<lambda>counts.
         bnd (binned_mean stats sample (sample @ forces) bins_list ranges) (\<lambda>means.
           let index = np_where_positive counts;
               n = length (variables ufed)
           in bnd (mapM (\<lambda>i. bnd (py_index means (int i)) (\<lambda>a. take_index a index)) [0..<n])
                (\<lambda>cs.
              bnd (mapM (\<lambda>i. bnd (py_index means (int (n + i))) (\<lambda>a. take_index a index))
                     [0..<n])
                (\<lambda>fs.
              Inr \<lparr>ufed_of = ufed, bins_of = bins_list,
                   histogram = map ((!) counts) index,
                   centers = cs, mean_forces = fs\<rparr>))))))"

subsection \<open>Analyzer.free_energy_functions\<close>

text \<open>
  The argument \<open>sigma\<close>: absent, one number, or a sequence of numbers.  The helper
  \<open>_standardize\<close>, which removes the physical unit of a quantity, belongs to another module
  and is a parameter.
\<close>

datatype sigma_arg = SigmaNone | SigmaScalar real | SigmaList "real list"

definition variances_of :: "(real \<Rightarrow> real) \<Rightarrow> Analyzer \<Rightarrow> sigma_arg \<Rightarrow> error + real list" where
  "variances_of standardize self sigma =
     (case sigma of
        SigmaNone \<Rightarrow>
          mapM (\<lambda>(i, cv).
                  bnd (py_index (bins_of self) (int i)) (\<lambda>b.
                    if b = 0 then Inl ZeroDivisionError
                    else Inr ((cv_range cv / real_of_int b)\<^sup>2)))
               (enumerate 0 (variables (ufed_of self)))
      | SigmaList vs \<Rightarrow> Inr (map (\<lambda>v. (standardize v)\<^sup>2) vs)
      | SigmaScalar s \<Rightarrow>
          Inr (replicate (length (variables (ufed_of self))) ((standardize s)\<^sup>2)))"

text \<open>
  The loop that builds the kernel functions.  Each lambda expression of the source refers to
  the variables \<open>factor\<close> and \<open>variance\<close> of the enclosing function, not to their values
  when the lambda is created: a closure is the body of its lambda, and the two variables are
  cells of the scope, read when the closure is called.  A cell is empty until it is assigned.
\<close>

record scope =
  factor :: "real option"
  variance :: "real option"

datatype closure =
    PeriodicExponent | PeriodicDerivative | GaussianExponent | GaussianDerivative

fun build_kernels ::
  "(CollectiveVariable \<times> real) list \<Rightarrow> scope \<times> closure list \<times> closure list \<Rightarrow>
   error + (scope \<times> closure list \<times> closure list)" where
  "build_kernels [] acc = Inr acc"
| "build_kernels ((cv, var) # rest) (sc, exponent, derivative) =
     (if periodic cv then
        (if cv_range cv = 0 then Inl ZeroDivisionError
         else build_kernels rest
                (sc\<lparr>variance := Some var, factor := Some (2 * pi / cv_range cv)\<rparr>,
                 exponent @ [PeriodicExponent], derivative @ [PeriodicDerivative]))
      else build_kernels rest
             (sc\<lparr>variance := Some var\<rparr>,
              exponent @ [GaussianExponent], derivative @ [GaussianDerivative]))"

text \<open>Calling a closure reads the cells; an empty cell raises a name error.\<close>

definition call :: "scope \<Rightarrow> closure \<Rightarrow> real \<Rightarrow> error + real" where
  "call sc c x =
     (case c of
        PeriodicExponent \<Rightarrow>
          (case factor sc of None \<Rightarrow> Inl NameError | Some f \<Rightarrow>
           case variance sc of None \<Rightarrow> Inl NameError | Some v \<Rightarrow>
             Inr ((cos (f * x) - 1) / v))
      | PeriodicDerivative \<Rightarrow>
          (case factor sc of None \<Rightarrow> Inl NameError | Some f \<Rightarrow>
           case variance sc of None \<Rightarrow> Inl NameError | Some v \<Rightarrow>
             Inr (- sin (f * x) * f / v))
      | GaussianExponent \<Rightarrow>
          (case variance sc of None \<Rightarrow> Inl NameError | Some v \<Rightarrow> Inr (- 0.5 * x\<^sup>2 / v))
      | GaussianDerivative \<Rightarrow>
          (case variance sc of None \<Rightarrow> Inl NameError | Some v \<Rightarrow> Inr (- x / v)))"

text \<open>
  What the function has built when the loop is over and what it returns: the closures
  \<open>potential\<close> and \<open>mean_force\<close> share the scope of the call.
\<close>

record fitted =
  fit_scope :: scope
  fit_exponent :: "closure list"
  fit_derivative :: "closure list"
  fit_n :: nat
  fit_centers :: "real list list"
  fit_A :: "real list"
  fit_minimum :: real

definition kernel :: "scope \<Rightarrow> closure list \<Rightarrow> nat \<Rightarrow> real list \<Rightarrow> error + real" where
  "kernel sc exponent n x =
     bnd (mapM (\<lambda>i. bnd (py_index exponent (int i)) (\<lambda>c.
                     bnd (py_index x (int i)) (\<lambda>xi. call sc c xi))) [0..<n])
       (\<lambda>es. Inr (exp (sum_list es)))"

definition gradient ::
  "scope \<Rightarrow> closure list \<Rightarrow> closure list \<Rightarrow> nat \<Rightarrow> real list \<Rightarrow> int \<Rightarrow> error + real" where
  "gradient sc exponent derivative n x i =
     bnd (kernel sc exponent n x) (\<lambda>k.
     bnd (py_index derivative i) (\<lambda>d.
     bnd (py_index x i) (\<lambda>xi.
     bnd (call sc d xi) (\<lambda>dv. Inr (k * dv)))))"

text \<open>\<open>zip(*self.centers)\<close>: the rows, as many as the shortest array has entries.\<close>

fun min_length :: "'a list list \<Rightarrow> nat" where
  "min_length [] = 0"
| "min_length [xs] = length xs"
| "min_length (xs # xss) = min (length xs) (min_length xss)"

definition zip_star :: "'a list list \<Rightarrow> 'a list list" where
  "zip_star xss = map (\<lambda>j. map (\<lambda>xs. xs ! j) xss) [0..<min_length xss]"

text \<open>
  Arithmetic of two one-dimensional arrays: equal lengths, or one of them of length one,
  otherwise the shapes cannot be broadcast.  \<open>np.vstack\<close> and \<open>np.hstack\<close> need at least
  one array; the product of a matrix and a vector needs matching lengths.
\<close>

definition np_broadcast ::
  "(real \<Rightarrow> real \<Rightarrow> real) \<Rightarrow> real list \<Rightarrow> real list \<Rightarrow> error + real list" where
  "np_broadcast f a b =
     (if length a = length b then Inr (map2 f a b)
      else if length a = 1 then Inr (map (f (hd a)) b)
      else if length b = 1 then Inr (map (\<lambda>x. f x (hd b)) a)
      else Inl ValueError)"

definition np_vstack :: "real list list \<Rightarrow> error + real list list" where
  "np_vstack rows = (if rows = [] then Inl ValueError else Inr rows)"

definition np_hstack :: "real list list \<Rightarrow> error + real list" where
  "np_hstack arrays = (if arrays = [] then Inl ValueError else Inr (concat arrays))"

definition np_dot :: "real list list \<Rightarrow> real list \<Rightarrow> error + real list" where
  "np_dot m a =
     (if list_all (\<lambda>row. length row = length a) m
      then Inr (map (\<lambda>row. sum_list (map2 (*) row a)) m)
      else Inl ValueError)"

text \<open>
  The fit.  The least-squares solver \<open>np.linalg.lstsq\<close> is a parameter; it returns the
  weights or raises.
\<close>

definition free_energy_functions ::
  "(real list list \<Rightarrow> real list \<Rightarrow> error + real list) \<Rightarrow> (real \<Rightarrow> real) \<Rightarrow> Analyzer \<Rightarrow>
   sigma_arg \<Rightarrow> error + fitted" where
  "free_energy_functions lstsq standardize self sigma =
     bnd (variances_of standardize self sigma) (\<lambda>variances.
     bnd (build_kernels (zip (variables (ufed_of self)) variances)
            (\<lparr>factor = None, variance = None\<rparr>, [], [])) (\<lambda>(sc, exponent, derivative).
       let n = length (variables (ufed_of self));
           cs = zip_star (centers self)
       in bnd (mapM (\<lambda>i. mapM (\<lambda>x. mapM (\<lambda>xc. bnd (np_broadcast (-) x xc) (\<lambda>d.
                                           gradient sc exponent derivative n d (int i))) cs) cs)
                 [0..<n]) (\<lambda>coefficients.
          bnd (np_vstack (concat coefficients)) (\<lambda>M.
          bnd (np_hstack (mean_forces self)) (\<lambda>F.
          bnd (lstsq M (map uminus F)) (\<lambda>A.
          bnd (mapM (\<lambda>x. mapM (\<lambda>xc. bnd (np_broadcast (-) x xc) (kernel sc exponent n)) cs) cs)
            (\<lambda>kernels.
          bnd (np_dot kernels A) (\<lambda>potentials.
            if potentials = [] then Inl ValueError
            else Inr \<lparr>fit_scope = sc, fit_exponent = exponent, fit_derivative = derivative,
                      fit_n = n, fit_centers = cs, fit_A = A,
                      fit_minimum = Min (set potentials)\<rparr>))))))))"

definition potential :: "fitted \<Rightarrow> real list \<Rightarrow> error + real" where
  "potential fm x =
     bnd (mapM (\<lambda>xc. bnd (np_broadcast (-) x xc)
                       (kernel (fit_scope fm) (fit_exponent fm) (fit_n fm)))
            (fit_centers fm)) (\<lambda>kernels.
     bnd (np_broadcast (*) (fit_A fm) kernels) (\<lambda>p. Inr (sum_list p - fit_minimum fm)))"

definition mean_force :: "fitted \<Rightarrow> real list \<Rightarrow> int \<Rightarrow> error + real" where
  "mean_force fm x dir =
     bnd (mapM (\<lambda>xc. bnd (np_broadcast (-) x xc) (\<lambda>d.
                  gradient (fit_scope fm) (fit_exponent fm) (fit_derivative fm) (fit_n fm) d dir))
            (fit_centers fm)) (\<lambda>gradients.
     bnd (np_broadcast (*) (fit_A fm) gradients) (\<lambda>p. Inr (- sum_list p)))"

subsection \<open>Auxiliary definitions for the analyzer\<close>

text \<open>
  The value of \<open>exponent[i](x)\<close> and of \<open>derivative[i](x)\<close> when the loop that builds the
  kernel functions is over, as the fit and the two returned functions see them.
\<close>

definition exponent_value ::
  "(real \<Rightarrow> real) \<Rightarrow> Analyzer \<Rightarrow> sigma_arg \<Rightarrow> nat \<Rightarrow> real \<Rightarrow> error + real" where
  "exponent_value standardize self sigma i x =
     bnd (variances_of standardize self sigma) (\<lambda>variances.
     bnd (build_kernels (zip (variables (ufed_of self)) variances)
            (\<lparr>factor = None, variance = None\<rparr>, [], [])) (\<lambda>(sc, exponent, derivative).
     bnd (py_index exponent (int i)) (\<lambda>c. call sc c x)))"

definition derivative_value ::
  "(real \<Rightarrow> real) \<Rightarrow> Analyzer \<Rightarrow> sigma_arg \<Rightarrow> nat \<Rightarrow> real \<Rightarrow> error + real" where
  "derivative_value standardize self sigma i x =
     bnd (variances_of standardize self sigma) (\<lambda>variances.
     bnd (build_kernels (zip (variables (ufed_of self)) variances)
            (\<lparr>factor = None, variance = None\<rparr>, [], [])) (\<lambda>(sc, exponent, derivative).
     bnd (py_index derivative (int i)) (\<lambda>c. call sc c x)))"

text \<open>Concrete collective variables, analyzers, tables and library functions, for instances.\<close>

definition gaussian_cv :: "string \<Rightarrow> real \<Rightarrow> CollectiveVariable" where
  "gaussian_cv name r =
     \<lparr>cv_id = name, periodic = False, min_value = 0, max_value = r, force_constant = 1,
      cv_range = r\<rparr>"

definition periodic_cv :: "string \<Rightarrow> real \<Rightarrow> real \<Rightarrow> CollectiveVariable" where
  "periodic_cv name r k =
     \<lparr>cv_id = name, periodic = True, min_value = 0, max_value = r, force_constant = k,
      cv_range = r\<rparr>"

definition one_dim_ufed :: UnifiedFreeEnergyDynamics where
  "one_dim_ufed = \<lparr>variables = [gaussian_cv ''a'' 1]\<rparr>"

definition one_dim_analyzer :: Analyzer where
  "one_dim_analyzer =
     \<lparr>ufed_of = one_dim_ufed, bins_of = [1], histogram = [1], centers = [[0]],
      mean_forces = [[0]]\<rparr>"

definition two_dim_analyzer :: Analyzer where
  "two_dim_analyzer =
     \<lparr>ufed_of = \<lparr>variables = [gaussian_cv ''a'' 1, gaussian_cv ''b'' 2]\<rparr>,
      bins_of = [1, 1], histogram = [1], centers = [[0], [0]], mean_forces = [[0], [0]]\<rparr>"

definition unpopulated_analyzer :: Analyzer where
  "unpopulated_analyzer =
     \<lparr>ufed_of = \<lparr>variables = [gaussian_cv ''a'' 1, gaussian_cv ''b'' 2]\<rparr>,
      bins_of = [1, 1], histogram = [], centers = [[], []], mean_forces = [[], []]\<rparr>"

definition zero_range_analyzer :: Analyzer where
  "zero_range_analyzer =
     \<lparr>ufed_of = \<lparr>variables = [periodic_cv ''a'' 0 1, gaussian_cv ''b'' 2]\<rparr>,
      bins_of = [1, 1], histogram = [1], centers = [[0], [0]], mean_forces = [[0], [0]]\<rparr>"

definition empty_table :: dataframe where
  "empty_table = [''a'' \<mapsto> [], ''s_a'' \<mapsto> []]"

definition empty_stats :: scipy_stats where
  "empty_stats =
     \<lparr>binned_count = (\<lambda>sample bins ranges. Inr [0, 0]),
      binned_mean = (\<lambda>sample vals bins ranges. Inr (map (\<lambda>v. [0, 0]) vals))\<rparr>"

definition lstsq_ones :: "real list list \<Rightarrow> real list \<Rightarrow> error + real list" where
  "lstsq_ones M F = Inr (replicate (length (hd M)) 1)"

text \<open>
  The derivative closure that the loop appends together with an exponent closure, and the
  state of the scope and of the two lists after any number of iterations: the cells that
  the closures read are assigned.
\<close>

fun derivative_of :: "closure \<Rightarrow> closure" where
  "derivative_of PeriodicExponent = PeriodicDerivative"
| "derivative_of GaussianExponent = GaussianDerivative"
| "derivative_of c = c"

definition well_scoped :: "scope \<Rightarrow> closure list \<Rightarrow> closure list \<Rightarrow> bool" where
  "well_scoped sc exponent derivative \<longleftrightarrow>
     (exponent \<noteq> [] \<longrightarrow> variance sc \<noteq> None) \<and>
     (PeriodicExponent \<in> set exponent \<longrightarrow> factor sc \<noteq> None) \<and>
     derivative = map derivative_of exponent \<and>
     set exponent \<subseteq> {PeriodicExponent, GaussianExponent}"

text \<open>The number in a result that is not an error.\<close>

fun val :: "error + real \<Rightarrow> real" where
  "val (Inr y) = y"
| "val (Inl e) = 0"

definition one_row_table :: dataframe where
  "one_row_table = [''a'' \<mapsto> [0], ''s_a'' \<mapsto> [0]]"

definition one_cell_stats :: scipy_stats where
  "one_cell_stats =
     \<lparr>binned_count = (\<lambda>sample bins ranges. Inr [1]),
      binned_mean = (\<lambda>sample vals bins ranges. Inr (map (\<lambda>v. [0]) vals))\<rparr>"

definition three_cell_stats :: scipy_stats where
  "three_cell_stats =
     \<lparr>binned_count = (\<lambda>sample bins ranges. Inr [2, 0, 1]),
      binned_mean = (\<lambda>sample vals bins ranges. Inr [[1, 0, 9], [5, 0, 7]])\<rparr>"

definition wrap_table :: dataframe where
  "wrap_table = [''a'' \<mapsto> [3, - 1], ''s_a'' \<mapsto> [0, 0]]"

definition one_dim_fit :: fitted where
  "one_dim_fit =
     \<lparr>fit_scope = \<lparr>factor = None, variance = Some 1\<rparr>,
      fit_exponent = [GaussianExponent], fit_derivative = [GaussianDerivative],
      fit_n = 1, fit_centers = [[0]], fit_A = [1], fit_minimum = 1\<rparr>"

section \<open>Properties of the roundings\<close>
















section \<open>Properties of the integrators\<close>

subsection \<open>The program that is built\<close>

lemma addStep_simps [simp]:
  "computations (addStep s self) = computations self @ [s]"
  "rattles (addStep s self) = rattles self"
  "per_dof_variables (addStep s self) = per_dof_variables self"
  "global_variables (addStep s self) = global_variables self"
  "step_size (addStep s self) = step_size self"
  by (simp_all add: addStep_def)

lemmas add_defs = addComputePerDof_def addComputeGlobal_def addConstrainPositions_def addConstrainVelocities_def addUpdateContextState_def beginWhileBlock_def endBlock_def

declare run.simps [simp del]

lemma run_finished: "length prog \<le> pc \<Longrightarrow> run eng prog fuel (st, pc, tr) = Finished (st, pc, tr)"
  by (simp add: run.simps)

lemma run_step:
  "pc < length prog \<Longrightarrow> exec_step eng prog (st, pc, tr) = Some cfg \<Longrightarrow>
   run eng prog (Suc k) (st, pc, tr) = run eng prog k cfg"
  by (simp add: run.simps)

lemma exec_plain:
  "prog ! pc = s \<Longrightarrow> \<not> is_begin s \<Longrightarrow> s \<noteq> EndBlock \<Longrightarrow>
   exec_step eng prog (st, pc, tr) = Some (do_step eng s st, Suc pc, tr @ [pc])"
  by (cases s) (simp_all add: exec_step_def)

lemma run_plain:
  "pc < length prog \<Longrightarrow> prog ! pc = s \<Longrightarrow> \<not> is_begin s \<Longrightarrow> s \<noteq> EndBlock \<Longrightarrow>
   run eng prog (Suc k) (st, pc, tr) = run eng prog k (do_step eng s st, Suc pc, tr @ [pc])"
  by (simp add: run_step exec_plain)

text \<open>Straight-line code: a run of plain steps embedded at position pc.\<close>

lemma run_plain_list:
  "take (length ss) (drop pc prog) = ss \<Longrightarrow> pc + length ss \<le> length prog \<Longrightarrow>
   \<forall>s \<in> set ss. \<not> is_begin s \<and> s \<noteq> EndBlock \<Longrightarrow>
   run eng prog (length ss + k) (st, pc, tr) =
   run eng prog k (run_steps eng ss st, pc + length ss, tr @ [pc..<pc + length ss])"
  unfolding run_steps_def
proof (induction ss arbitrary: pc st tr)
  case Nil
  then show ?case by simp
next
  case (Cons s ss)
  have lt: "pc < length prog" using Cons.prems(2) by simp
  have hd: "prog ! pc = s"
    using Cons.prems(1) lt by (metis Cons_nth_drop_Suc list.sel(1) take_Suc_Cons length_Cons)
  have tl: "take (length ss) (drop (Suc pc) prog) = ss"
    using Cons.prems(1) lt by (metis Cons_nth_drop_Suc list.sel(3) take_Suc_Cons length_Cons)
  have "run eng prog (length (s # ss) + k) (st, pc, tr) =
        run eng prog (length ss + k) (do_step eng s st, Suc pc, tr @ [pc])"
    using run_plain[OF lt hd, where k = "length ss + k"] Cons.prems(3) by simp
  also have "\<dots> = run eng prog k (fold (do_step eng) ss (do_step eng s st), Suc pc + length ss,
                       (tr @ [pc]) @ [Suc pc..<Suc pc + length ss])"
    using Cons.IH[OF tl] Cons.prems(2,3) by simp
  finally have "run eng prog (length (s # ss) + k) (st, pc, tr) =
      run eng prog k (fold (do_step eng) (s # ss) st, pc + length (s # ss),
                       tr @ pc # [Suc pc..<Suc pc + length ss])"
    by simp
  moreover have "[pc..<pc + length (s # ss)] = pc # [Suc pc..<Suc pc + length ss]"
    by (simp add: upt_conv_Cons del: upt_Suc)
  ultimately show ?case by (simp add: eval_nat_numeral del: upt_Suc)
qed

lemma substep_irattle:
  "globals (substep eng r st) ''irattle'' = globals st ''irattle'' + 1"
  by (simp add: substep_def run_steps_def substep_steps_def)

lemma run_iteration:
  assumes blk: "take 8 (drop w prog) = while_block r"
    and len: "w + 8 \<le> length prog"
    and bb: "block_begin prog (w + 7) = Some w"
    and lt: "globals st ''irattle'' < real_of_int r"
  shows "run eng prog (8 + fuel) (st, w, tr) = run eng prog fuel (substep eng r st, w, tr @ [w..<w + 8])"
proof -
  have dw: "drop w prog = prog ! w # drop (Suc w) prog"
    using len by (simp add: Cons_nth_drop_Suc)
  have n0: "prog ! w = BeginWhileBlock (loop_cond r)"
    using blk dw by (simp add: while_block_def)
  have "take 7 (drop (Suc w) prog) = substep_steps r @ [EndBlock]"
    using blk dw by (simp add: while_block_def)
  moreover have "take 6 (drop (Suc w) prog) = take 6 (take 7 (drop (Suc w) prog))"
    by simp
  ultimately have body6: "take 6 (drop (Suc w) prog) = substep_steps r"
    by (simp add: substep_steps_def)
  have l6: "length (substep_steps r) = 6" by (simp add: substep_steps_def)
  have body: "take (length (substep_steps r)) (drop (Suc w) prog) = substep_steps r"
    unfolding l6 by (rule body6)
  have "take 8 (drop w prog) ! 7 = prog ! (w + 7)" using len by simp
  then have n7: "prog ! (w + 7) = EndBlock"
    using blk by (simp add: while_block_def substep_steps_def)
  have e0: "exec_step eng prog (st, w, tr) = Some (st, Suc w, tr @ [w])"
    using lt by (simp add: exec_step_def n0 enter_block_def loop_cond_def)
  have e7: "\<And>s t. exec_step eng prog (s, w + 7, t) = Some (s, w, t @ [w + 7])"
    by (simp add: exec_step_def n7 bb n0)
  have plain: "\<forall>s \<in> set (substep_steps r). \<not> is_begin s \<and> s \<noteq> EndBlock"
    by (simp add: substep_steps_def)
  have "run eng prog (8 + fuel) (st, w, tr) = run eng prog (6 + Suc fuel) (st, Suc w, tr @ [w])"
    using run_step[OF _ e0, where k = "7 + fuel"] len by (simp add: eval_nat_numeral)
  also have "\<dots> = run eng prog (Suc fuel) (substep eng r st, w + 7, tr @ [w..<w + 7])"
    using run_plain_list[OF body _ plain, where k = "Suc fuel" and eng = eng and st = st and tr = "tr @ [w]"] len
    by (simp add: l6 substep_def upt_rec[of w] add.commute)
  also have "\<dots> = run eng prog fuel (substep eng r st, w, tr @ [w..<w + 8])"
    using run_step[OF _ e7, where k = fuel] len by (simp add: eval_nat_numeral)
  finally show ?thesis .
qed

lemma run_loop:
  assumes blk: "take 8 (drop w prog) = while_block r"
    and len: "w + 8 \<le> length prog"
    and bb: "block_begin prog (w + 7) = Some w"
    and be: "block_end prog w = Some (w + 7)"
  shows "globals st ''irattle'' = real_of_int r - real j \<Longrightarrow>
     run eng prog (8 * j + 1 + fuel) (st, w, tr) =
     run eng prog fuel ((substep eng r ^^ j) st, w + 8, tr @ concat (replicate j [w..<w + 8]) @ [w])"
proof (induction j arbitrary: st tr)
  case 0
  have dw: "drop w prog = prog ! w # drop (Suc w) prog"
    using len by (simp add: Cons_nth_drop_Suc)
  have n0: "prog ! w = BeginWhileBlock (loop_cond r)"
    using blk dw by (simp add: while_block_def)
  have e0: "exec_step eng prog (st, w, tr) = Some (st, w + 8, tr @ [w])"
    using 0 by (simp add: exec_step_def n0 enter_block_def loop_cond_def be)
  show ?case using run_step[OF _ e0, where k = fuel] len by simp
next
  case (Suc j)
  have lt: "globals st ''irattle'' < real_of_int r" using Suc.prems by simp
  have nxt: "globals (substep eng r st) ''irattle'' = real_of_int r - real j"
    using Suc.prems by (simp add: substep_irattle)
  have "run eng prog (8 * Suc j + 1 + fuel) (st, w, tr) =
        run eng prog (8 + (8 * j + 1 + fuel)) (st, w, tr)" by (simp add: algebra_simps)
  also have "\<dots> = run eng prog (8 * j + 1 + fuel) (substep eng r st, w, tr @ [w..<w + 8])"
    by (rule run_iteration[OF blk len bb lt])
  also have "\<dots> = run eng prog fuel ((substep eng r ^^ j) (substep eng r st), w + 8,
                     (tr @ [w..<w + 8]) @ concat (replicate j [w..<w + 8]) @ [w])"
    by (rule Suc.IH[OF nxt])
  finally show ?case by (simp add: funpow_swap1)
qed

lemma fresh_simps [simp]:
  "rattles (integrator.extend I (GeodesicBAOAB.fields r)) = r"
  "computations (integrator.extend I (GeodesicBAOAB.fields r)) = computations I"
  "per_dof_variables (integrator.extend I (GeodesicBAOAB.fields r)) = per_dof_variables I"
  "global_variables (integrator.extend I (GeodesicBAOAB.fields r)) = global_variables I"
  "step_size (integrator.extend I (GeodesicBAOAB.fields r)) = step_size I"
  by (simp_all add: integrator.defs GeodesicBAOAB.defs)

lemma A_step_computations:
  "computations (A_step self) = computations self @
     (if rattles self > 1 then [ComputeGlobal ''irattle'' (Const 0), BeginWhileBlock (loop_cond (rattles self))] else []) @
     [ComputePerDof ''x'' (drift_expr (rattles self))] @
     (if rattles self > 0 then [ComputePerDof ''x0'' (PerDof ''x''), ConstrainPositions,
          ComputePerDof ''v'' (correction_expr (rattles self)), ConstrainVelocities] else []) @
     (if rattles self > 1 then [ComputeGlobal ''irattle'' (Add (Global ''irattle'') (Const 1)), EndBlock] else [])"
  by (simp add: A_step_def add_defs Let_def)

lemma B_step_computations:
  "computations (B_step self) = computations self @
     ComputePerDof ''v'' kick_expr # (if rattles self > 0 then [ConstrainVelocities] else [])"
  by (simp add: B_step_def add_defs Let_def)

lemma O_step_computations:
  "computations (O_step self) = computations self @
     ComputePerDof ''v'' ou_expr # (if rattles self > 0 then [ConstrainVelocities] else [])"
  by (simp add: O_step_def add_defs Let_def)


lemma method_rattles [simp]:
  "rattles (A_step self) = rattles self"
  "rattles (B_step self) = rattles self"
  "rattles (O_step self) = rattles self"
  by (simp_all add: A_step_def B_step_def O_step_def add_defs Let_def)

lemma steps_of_A:
  "steps_of A_step r =
     (if r > 1 then ComputeGlobal ''irattle'' (Const 0) # while_block r
      else if r > 0 then [ComputePerDof ''x'' (drift_expr r), ComputePerDof ''x0'' (PerDof ''x''),
                          ConstrainPositions, ComputePerDof ''v'' (correction_expr r),
                          ConstrainVelocities]
      else [ComputePerDof ''x'' (drift_expr r)])"
  by (simp add: steps_of_def A_step_computations openmm_CustomIntegrator_def while_block_def
      substep_steps_def)

lemma steps_of_B:
  "steps_of B_step r = ComputePerDof ''v'' kick_expr # (if r > 0 then [ConstrainVelocities] else [])"
  by (simp add: steps_of_def B_step_computations openmm_CustomIntegrator_def)

lemma steps_of_O:
  "steps_of O_step r = ComputePerDof ''v'' ou_expr # (if r > 0 then [ConstrainVelocities] else [])"
  by (simp add: steps_of_def O_step_computations openmm_CustomIntegrator_def)

lemma addVariable_computations [simp]:
  "computations (addGlobalVariable n a self) = computations self"
  "computations (addPerDofVariable n a self) = computations self"
  by (simp_all add: addGlobalVariable_def addPerDofVariable_def)

lemma addVariable_rattles [simp]:
  "rattles (addGlobalVariable n a self) = rattles self"
  "rattles (addPerDofVariable n a self) = rattles self"
  by (simp_all add: addGlobalVariable_def addPerDofVariable_def)

lemma program_composition:
  "computations (GeodesicBAOABIntegrator R T g dt r) =
     [UpdateContextState] @ steps_of B_step r @ steps_of A_step r @ steps_of O_step r @
     steps_of A_step r @ steps_of B_step r"
  by (simp add: GeodesicBAOABIntegrator_def Let_def A_step_computations B_step_computations
      O_step_computations addUpdateContextState_def steps_of_def CustomIntegrator_init_def
      openmm_CustomIntegrator_def)

lemma program_rattles_gt1:
  "1 < r \<Longrightarrow> computations (GeodesicBAOABIntegrator R T g dt r) =
     [UpdateContextState, ComputePerDof ''v'' kick_expr, ConstrainVelocities,
      ComputeGlobal ''irattle'' (Const 0)] @ while_block r @
     [ComputePerDof ''v'' ou_expr, ConstrainVelocities, ComputeGlobal ''irattle'' (Const 0)] @
     while_block r @ [ComputePerDof ''v'' kick_expr, ConstrainVelocities]"
  by (simp add: program_composition steps_of_A steps_of_B steps_of_O)

lemma wb_len: "length (while_block r) = 8"
  by (simp add: while_block_def substep_steps_def)

lemma program_blocks:
  assumes "1 < r"
  shows "block_begin (computations (GeodesicBAOABIntegrator R T g dt r)) 11 = Some 4"
    and "block_begin (computations (GeodesicBAOABIntegrator R T g dt r)) 22 = Some 15"
    and "block_end (computations (GeodesicBAOABIntegrator R T g dt r)) 4 = Some 11"
    and "block_end (computations (GeodesicBAOABIntegrator R T g dt r)) 15 = Some 22"
    and "take 8 (drop 4 (computations (GeodesicBAOABIntegrator R T g dt r))) = while_block r"
    and "take 8 (drop 15 (computations (GeodesicBAOABIntegrator R T g dt r))) = while_block r"
    and "length (computations (GeodesicBAOABIntegrator R T g dt r)) = 25"
  using assms
  by (simp_all add: program_rattles_gt1 block_begin_def block_end_def while_block_def
      substep_steps_def upt_rec_numeral)

lemma run_more_fuel:
  "run eng prog k cfg = Finished cfg' \<Longrightarrow> run eng prog (k + m) cfg = Finished cfg'"
proof (induction k arbitrary: cfg)
  case 0
  then show ?case by (cases cfg) (simp add: run.simps split: if_splits)
next
  case (Suc k)
  obtain st pc tr where cfg: "cfg = (st, pc, tr)" by (cases cfg)
  show ?case
  proof (cases "length prog \<le> pc")
    case True
    then show ?thesis using Suc.prems by (auto simp: cfg run.simps)
  next
    case False
    then obtain cfg2 where e: "exec_step eng prog (st, pc, tr) = Some cfg2"
      and r: "run eng prog k cfg2 = Finished cfg'"
      using Suc.prems by (auto simp: cfg run.simps split: option.splits)
    have "run eng prog (Suc (k + m)) (st, pc, tr) = run eng prog (k + m) cfg2"
      using False e by (simp add: run_step)
    then show ?thesis using Suc.IH[OF r] by (simp add: cfg)
  qed
qed

lemma substep_pow_irattle:
  "globals ((substep eng r ^^ k) st) ''irattle'' = globals st ''irattle'' + real k"
  by (induction k) (simp_all add: substep_irattle)

lemma run_plain_list':
  assumes "take (length ss) (drop pc prog) = ss" and "pc + length ss \<le> length prog"
    and "\<forall>s \<in> set ss. \<not> is_begin s \<and> s \<noteq> EndBlock"
    and "fuel = length ss + k" and "st' = run_steps eng ss st"
    and "pc' = pc + length ss" and "tr' = tr @ [pc..<pc + length ss]"
  shows "run eng prog fuel (st, pc, tr) = run eng prog k (st', pc', tr')"
  using run_plain_list[OF assms(1,2,3)] assms(4-) by simp

lemma run_loop':
  assumes "take 8 (drop w prog) = while_block r" and "w + 8 \<le> length prog"
    and "block_begin prog (w + 7) = Some w" and "block_end prog w = Some (w + 7)"
    and "globals st ''irattle'' = real_of_int r - real j"
    and "fuel = 8 * j + 1 + k" and "st' = (substep eng r ^^ j) st"
    and "pc' = w + 8" and "tr' = tr @ concat (replicate j [w..<w + 8]) @ [w]"
  shows "run eng prog fuel (st, w, tr) = run eng prog k (st', pc', tr')"
  using run_loop[OF assms(1-5)] assms(6-) by simp

lemma run_looping:
  assumes r: "1 < r"
  shows "run eng (computations (GeodesicBAOABIntegrator R T g dt r)) (16 * nat r + 11) (st, 0, []) =
         Finished (looping_result eng r st, 25, trace_looping (nat r))"
proof -
  let ?P = "computations (GeodesicBAOABIntegrator R T g dt r)"
  let ?n = "nat r"
  let ?pre = "[UpdateContextState, ComputePerDof ''v'' kick_expr,
                ConstrainVelocities, ComputeGlobal ''irattle'' (Const 0)]"
  let ?mid = "[ComputePerDof ''v'' ou_expr, ConstrainVelocities,
                ComputeGlobal ''irattle'' (Const 0)]"
  let ?post = "[ComputePerDof ''v'' kick_expr, ConstrainVelocities]"
  let ?s1 = "run_steps eng ?pre st"
  let ?s2 = "(substep eng r ^^ ?n) ?s1"
  let ?s3 = "run_steps eng ?mid ?s2"
  let ?s4 = "(substep eng r ^^ ?n) ?s3"
  let ?s5 = "run_steps eng ?post ?s4"
  let ?t1 = "[0..<4]"
  let ?t2 = "?t1 @ concat (replicate ?n [4..<12]) @ [4]"
  let ?t3 = "?t2 @ [12..<15]"
  let ?t4 = "?t3 @ concat (replicate ?n [15..<23]) @ [15]"
  let ?t5 = "?t4 @ [23..<25]"
  note pb = program_blocks[OF r, of R T g dt]
  have len: "length ?P = 25" by (rule pb(7))
  have rn: "real_of_int r - real ?n = 0" using r by simp
  have i1: "globals ?s1 ''irattle'' = real_of_int r - real ?n"
    unfolding rn by (simp add: run_steps_def)
  have i3: "globals ?s3 ''irattle'' = real_of_int r - real ?n"
    unfolding rn by (simp add: run_steps_def)
  have P: "?P = ?pre @ while_block r @ ?mid @ while_block r @ ?post"
    using r by (simp add: program_rattles_gt1)
  have "run eng ?P (16 * ?n + 11) (st, 0, []) = run eng ?P (16 * ?n + 7) (?s1, 4, ?t1)"
    by (rule run_plain_list'[where ss = ?pre]) (simp_all add: P eval_nat_numeral)
  also have "\<dots> = run eng ?P (8 * ?n + 6) (?s2, 12, ?t2)"
    by (rule run_loop'[where r = r and j = ?n, OF _ _ _ _ i1]) (simp_all add: pb)
  also have "\<dots> = run eng ?P (8 * ?n + 3) (?s3, 15, ?t3)"
    by (rule run_plain_list'[where ss = ?mid]) (simp_all add: P wb_len eval_nat_numeral)
  also have "\<dots> = run eng ?P 2 (?s4, 23, ?t4)"
    by (rule run_loop'[where r = r and j = ?n, OF _ _ _ _ i3]) (simp_all add: pb)
  also have "\<dots> = run eng ?P 0 (?s5, 25, ?t5)"
    by (rule run_plain_list'[where ss = ?post]) (simp_all add: P wb_len eval_nat_numeral)
  also have "\<dots> = Finished (looping_result eng r st, 25, trace_looping ?n)"
    by (simp add: run_finished len looping_result_def trace_looping_def Let_def del: upt_Suc)
  finally show ?thesis .
qed

lemma count_list_concat_replicate:
  "count_list (concat (replicate n xs)) x = n * count_list xs x"
  by (induction n) simp_all

lemma count_list_upt:
  "count_list [a..<b] x = (if a \<le> x \<and> x < b then 1 else 0)"
  by (induction b) auto

lemma program_rattles_1:
  "computations (GeodesicBAOABIntegrator R T g dt 1) =
     [UpdateContextState, ComputePerDof ''v'' kick_expr, ConstrainVelocities,
      ComputePerDof ''x'' (drift_expr 1), ComputePerDof ''x0'' (PerDof ''x''), ConstrainPositions,
      ComputePerDof ''v'' (correction_expr 1), ConstrainVelocities,
      ComputePerDof ''v'' ou_expr, ConstrainVelocities,
      ComputePerDof ''x'' (drift_expr 1), ComputePerDof ''x0'' (PerDof ''x''), ConstrainPositions,
      ComputePerDof ''v'' (correction_expr 1), ConstrainVelocities,
      ComputePerDof ''v'' kick_expr, ConstrainVelocities]"
  by (simp add: program_composition steps_of_A steps_of_B steps_of_O)

lemma program_rattles_le0:
  "r \<le> 0 \<Longrightarrow> computations (GeodesicBAOABIntegrator R T g dt r) =
     [UpdateContextState, ComputePerDof ''v'' kick_expr, ComputePerDof ''x'' (drift_expr r),
      ComputePerDof ''v'' ou_expr, ComputePerDof ''x'' (drift_expr r),
      ComputePerDof ''v'' kick_expr]"
  by (simp add: program_composition steps_of_A steps_of_B steps_of_O)

lemma run_straight:
  assumes "\<forall>s \<in> set prog. \<not> is_begin s \<and> s \<noteq> EndBlock"
  shows "run eng prog (length prog) (st, 0, []) =
         Finished (run_steps eng prog st, length prog, [0..<length prog])"
proof -
  have "run eng prog (length prog) (st, 0, []) =
        run eng prog 0 (run_steps eng prog st, length prog, [0..<length prog])"
    by (rule run_plain_list'[where ss = prog]) (use assms in simp_all)
  then show ?thesis by (simp add: run_finished)
qed

lemma looping_irattle:
  "1 < r \<Longrightarrow> globals (looping_result eng r st) ''irattle'' = real_of_int r"
  by (simp add: looping_result_def Let_def run_steps_def substep_pow_irattle)

lemma run_enough_fuel:
  assumes "run eng prog k cfg = Finished cfg'" and "k \<le> fuel"
  shows "run eng prog fuel cfg = Finished cfg'"
proof -
  obtain m where "fuel = k + m" using assms(2) by (metis le_Suc_ex)
  then show ?thesis using run_more_fuel[OF assms(1), of m] by simp
qed

lemma trace_looping_counts:
  "count_list (trace_looping n) 3 = 1" "count_list (trace_looping n) 4 = n + 1"
  "count_list (trace_looping n) 14 = 1" "count_list (trace_looping n) 15 = n + 1"
  "length (trace_looping n) = 16 * n + 11"
  by (simp_all add: trace_looping_def count_list_concat_replicate count_list_upt length_concat
      sum_list_replicate)

lemma trace_looping_body:
  assumes "5 \<le> pc \<and> pc < 12 \<or> 16 \<le> pc \<and> pc < 23"
  shows "count_list (trace_looping n) pc = n"
proof -
  have "count_list [4..<12] pc + count_list [15..<23] pc = 1"
    and "count_list [0..<4] pc = 0" and "count_list [12..<15] pc = 0"
    and "count_list [23..<25] pc = 0" and "pc \<noteq> 4" and "pc \<noteq> 15"
    using assms unfolding count_list_upt by auto
  then show ?thesis
    unfolding trace_looping_def count_list_append count_list_concat_replicate
    by (simp add: distrib_left[symmetric])
qed

text \<open>
  Claim C10.  For every \<open>rattles \<ge> 0\<close>, one execution of the step program terminates:
  with any fuel of at least \<open>16 * rattles + 11\<close> steps it finishes at the end of the
  program after at most that many steps.  When \<open>rattles > 1\<close>, every step of the body of
  each of the two while loops (positions 5 to 11 and 16 to 22) is executed exactly
  \<open>rattles\<close> times, each loop condition (positions 4 and 15) is evaluated \<open>rattles + 1\<close>
  times, the counter is set to zero once before each loop (positions 3 and 14), and
  \<open>irattle\<close> equals \<open>rattles\<close> at the end.
\<close>

theorem step_program_terminates:
  assumes "0 \<le> r"
  shows "\<exists>st' tr.
     (\<forall>fuel \<ge> nat (16 * r + 11).
        run eng (computations (GeodesicBAOABIntegrator R T g dt r)) fuel (st, 0, []) =
        Finished (st', length (computations (GeodesicBAOABIntegrator R T g dt r)), tr)) \<and>
     length tr \<le> nat (16 * r + 11) \<and>
     (1 < r \<longrightarrow>
        (\<forall>pc \<in> {5..<12} \<union> {16..<23}. count_list tr pc = nat r) \<and>
        count_list tr 4 = nat r + 1 \<and> count_list tr 15 = nat r + 1 \<and>
        count_list tr 3 = 1 \<and> count_list tr 14 = 1 \<and>
        globals st' ''irattle'' = real_of_int r)"
proof -
  let ?P = "computations (GeodesicBAOABIntegrator R T g dt r)"
  consider "1 < r" | "r = 1" | "r = 0" using assms by linarith
  then show ?thesis
  proof cases
    case 1
    have fin: "run eng ?P (16 * nat r + 11) (st, 0, []) =
               Finished (looping_result eng r st, 25, trace_looping (nat r))"
      by (rule run_looping[OF 1])
    have b: "nat (16 * r + 11) = 16 * nat r + 11" using 1 by linarith
    have len: "length ?P = 25" by (rule program_blocks(7)[OF 1])
    show ?thesis
    proof (intro exI[of _ "looping_result eng r st"] exI[of _ "trace_looping (nat r)"] conjI
        allI impI ballI)
      fix fuel assume "nat (16 * r + 11) \<le> fuel"
      then show "run eng ?P fuel (st, 0, []) =
               Finished (looping_result eng r st, length ?P, trace_looping (nat r))"
        unfolding len b by (rule run_enough_fuel[OF fin])
    next
      show "length (trace_looping (nat r)) \<le> nat (16 * r + 11)"
        unfolding b by (simp add: trace_looping_counts)
    next
      fix pc :: nat assume "pc \<in> {5..<12} \<union> {16..<23}"
      then have "5 \<le> pc \<and> pc < 12 \<or> 16 \<le> pc \<and> pc < 23" by auto
      then show "count_list (trace_looping (nat r)) pc = nat r"
        by (rule trace_looping_body)
    qed (simp_all add: trace_looping_counts looping_irattle[OF 1])
  next
    case 2
    let ?Q = "computations (GeodesicBAOABIntegrator R T g dt 1)"
    have plain: "\<forall>s \<in> set ?Q. \<not> is_begin s \<and> s \<noteq> EndBlock"
      by (simp add: program_rattles_1)
    have len: "length ?Q = 17" by (simp add: program_rattles_1)
    have fin: "run eng ?Q (length ?Q) (st, 0, []) =
               Finished (run_steps eng ?Q st, length ?Q, [0..<length ?Q])"
      by (rule run_straight[OF plain])
    show ?thesis unfolding 2
    proof (intro exI[of _ "run_steps eng ?Q st"] exI[of _ "[0..<length ?Q]"] conjI allI impI)
      fix fuel :: nat assume "nat (16 * 1 + 11) \<le> fuel"
      then have "length ?Q \<le> fuel" unfolding len by simp
      then show "run eng ?Q fuel (st, 0, []) =
               Finished (run_steps eng ?Q st, length ?Q, [0..<length ?Q])"
        by (rule run_enough_fuel[OF fin])
    next
      show "length [0..<length ?Q] \<le> nat (16 * 1 + 11)" unfolding len by simp
    qed simp_all
  next
    case 3
    let ?Q = "computations (GeodesicBAOABIntegrator R T g dt 0)"
    have plain: "\<forall>s \<in> set ?Q. \<not> is_begin s \<and> s \<noteq> EndBlock"
      by (simp add: program_rattles_le0)
    have len: "length ?Q = 6" by (simp add: program_rattles_le0)
    have fin: "run eng ?Q (length ?Q) (st, 0, []) =
               Finished (run_steps eng ?Q st, length ?Q, [0..<length ?Q])"
      by (rule run_straight[OF plain])
    show ?thesis unfolding 3
    proof (intro exI[of _ "run_steps eng ?Q st"] exI[of _ "[0..<length ?Q]"] conjI allI impI)
      fix fuel :: nat assume "nat (16 * 0 + 11) \<le> fuel"
      then have "length ?Q \<le> fuel" unfolding len by simp
      then show "run eng ?Q fuel (st, 0, []) =
               Finished (run_steps eng ?Q st, length ?Q, [0..<length ?Q])"
        by (rule run_enough_fuel[OF fin])
    next
      show "length [0..<length ?Q] \<le> nat (16 * 0 + 11)" unfolding len by simp
    qed simp_all
  qed
qed

theorem step_program_terminates_witness:
  "(0::int) \<le> 3 \<and>
   (\<exists>st' tr. run free_engine (computations (GeodesicBAOABIntegrator 1 300 10 2 3)) 59
                (example_state, 0, []) = Finished (st', 25, tr) \<and>
             count_list tr 5 = 3 \<and> count_list tr 4 = 4 \<and> globals st' ''irattle'' = 3)"
proof -
  let ?P = "computations (GeodesicBAOABIntegrator 1 300 10 2 3)"
  have h: "(0::int) \<le> 3" by simp
  have len: "length ?P = 25" by (rule program_blocks(7)) simp
  obtain st' tr where
    a: "\<forall>fuel \<ge> nat (16 * 3 + 11).
          run free_engine ?P fuel (example_state, 0, []) = Finished (st', length ?P, tr)"
    and b: "(1::int) < 3 \<longrightarrow>
        (\<forall>pc \<in> {5..<12} \<union> {16..<23}. count_list tr pc = nat 3) \<and>
        count_list tr 4 = nat 3 + 1 \<and> count_list tr 15 = nat 3 + 1 \<and>
        count_list tr 3 = 1 \<and> count_list tr 14 = 1 \<and>
        globals st' ''irattle'' = real_of_int 3"
    using step_program_terminates[OF h, of free_engine 1 300 10 2 example_state] by blast
  have "run free_engine ?P 59 (example_state, 0, []) = Finished (st', 25, tr)"
    using a len by simp
  moreover have "count_list tr 5 = 3" using b by simp
  moreover have "count_list tr 4 = 4" "globals st' ''irattle'' = 3" using b by simp_all
  ultimately show ?thesis using h by blast
qed

lemma eval_constraints_irrelevant:
  "eval (eng\<lparr>constrain_positions := cp, constrain_velocities := cv\<rparr>) st i loc e = eval eng st i loc e"
  by (induction e arbitrary: loc) simp_all

lemma do_step_constraints_irrelevant:
  "ConstrainPositions \<noteq> s \<Longrightarrow> ConstrainVelocities \<noteq> s \<Longrightarrow>
   do_step (eng\<lparr>constrain_positions := cp, constrain_velocities := cv\<rparr>) s st = do_step eng s st"
  by (cases s) (simp_all add: eval_constraints_irrelevant)

lemma run_steps_constraints_irrelevant:
  "ConstrainPositions \<notin> set ss \<Longrightarrow> ConstrainVelocities \<notin> set ss \<Longrightarrow>
   run_steps (eng\<lparr>constrain_positions := cp, constrain_velocities := cv\<rparr>) ss st = run_steps eng ss st"
  unfolding run_steps_def
  by (induction ss arbitrary: st) (simp_all add: do_step_constraints_irrelevant)

text \<open>
  Claim C5.  With \<open>rattles = 0\<close> the step program contains neither a constrain-positions
  nor a constrain-velocities step, and neither do the steps added by \<open>_A\<close>, \<open>_B\<close> and
  \<open>_O\<close>; executing the program runs its six steps once each, and the result is the same
  whatever the two constraint projections of the engine are, so none of them is called.
\<close>

theorem rattles_zero_no_constraints:
  "ConstrainPositions \<notin> set (computations (GeodesicBAOABIntegrator R T g dt 0)) \<and>
   ConstrainVelocities \<notin> set (computations (GeodesicBAOABIntegrator R T g dt 0)) \<and>
   ConstrainPositions \<notin> set (steps_of A_step 0 @ steps_of B_step 0 @ steps_of O_step 0) \<and>
   ConstrainVelocities \<notin> set (steps_of A_step 0 @ steps_of B_step 0 @ steps_of O_step 0) \<and>
   (\<exists>st'. run eng (computations (GeodesicBAOABIntegrator R T g dt 0)) 6 (st, 0, []) =
            Finished (st', 6, [0, 1, 2, 3, 4, 5]) \<and>
          (\<forall>cp cv. run (eng\<lparr>constrain_positions := cp, constrain_velocities := cv\<rparr>)
                       (computations (GeodesicBAOABIntegrator R T g dt 0)) 6 (st, 0, []) =
                    Finished (st', 6, [0, 1, 2, 3, 4, 5])))"
proof -
  let ?Q = "computations (GeodesicBAOABIntegrator R T g dt 0)"
  have Q: "?Q = [UpdateContextState, ComputePerDof ''v'' kick_expr, ComputePerDof ''x'' (drift_expr 0),
      ComputePerDof ''v'' ou_expr, ComputePerDof ''x'' (drift_expr 0), ComputePerDof ''v'' kick_expr]"
    by (rule program_rattles_le0) simp
  have plain: "\<forall>s \<in> set ?Q. \<not> is_begin s \<and> s \<noteq> EndBlock" by (simp add: Q)
  have len: "length ?Q = 6" by (simp add: Q)
  have upt: "[0..<length ?Q] = [0, 1, 2, 3, 4, 5]" unfolding len by (simp add: eval_nat_numeral)
  have np: "ConstrainPositions \<notin> set ?Q" and nv: "ConstrainVelocities \<notin> set ?Q"
    by (simp_all add: Q)
  have fin: "\<And>e. run e ?Q 6 (st, 0, []) = Finished (run_steps e ?Q st, 6, [0, 1, 2, 3, 4, 5])"
    using run_straight[OF plain] unfolding upt unfolding len by simp
  have "\<forall>cp cv. run (eng\<lparr>constrain_positions := cp, constrain_velocities := cv\<rparr>) ?Q 6 (st, 0, []) =
                    Finished (run_steps eng ?Q st, 6, [0, 1, 2, 3, 4, 5])"
    by (simp only: fin run_steps_constraints_irrelevant[OF np nv]) simp
  moreover have "ConstrainPositions \<notin> set (steps_of A_step 0 @ steps_of B_step 0 @ steps_of O_step 0)"
    "ConstrainVelocities \<notin> set (steps_of A_step 0 @ steps_of B_step 0 @ steps_of O_step 0)"
    by (simp_all add: steps_of_A steps_of_B steps_of_O)
  ultimately show ?thesis using np nv fin[of eng] by blast
qed

















section \<open>Properties of the analyzer\<close>

subsection \<open>Results that are errors\<close>

lemma bnd_simps [simp]:
  "bnd (Inl e) f = Inl e"
  "bnd (Inr a) f = f a"
  by (simp_all add: bnd_def)

lemma bnd_eq_Inr:
  "bnd m f = Inr b \<longleftrightarrow> (\<exists>a. m = Inr a \<and> f a = Inr b)"
  by (cases m) simp_all

lemma mapM_Inr:
  "mapM f xs = Inr ys \<Longrightarrow> length ys = length xs \<and> (\<forall>i < length xs. f (xs ! i) = Inr (ys ! i))"
proof (induction xs arbitrary: ys)
  case Nil
  then show ?case by simp
next
  case (Cons x xs)
  then obtain y ys' where y: "f x = Inr y" and ys': "mapM f xs = Inr ys'" and e: "ys = y # ys'"
    by (auto split: sum.splits)
  show ?case using Cons.IH[OF ys'] y e by (auto simp: nth_Cons split: nat.splits)
qed

lemma mapM_all_Inr:
  "(\<And>x. x \<in> set xs \<Longrightarrow> f x = Inr (g x)) \<Longrightarrow> mapM f xs = Inr (map g xs)"
  by (induction xs) simp_all

lemma mapM_Inl:
  "mapM f xs = Inl e \<Longrightarrow> \<exists>x \<in> set xs. f x = Inl e"
  by (induction xs) (auto split: sum.splits)

lemma mapM_error_kind:
  "(\<And>x e. x \<in> set xs \<Longrightarrow> f x = Inl e \<Longrightarrow> e = e0) \<Longrightarrow> \<exists>x \<in> set xs. \<exists>e. f x = Inl e \<Longrightarrow>
   mapM f xs = Inl e0"
proof (induction xs)
  case Nil
  then show ?case by simp
next
  case (Cons x xs)
  show ?case
  proof (cases "f x")
    case (Inl e)
    then show ?thesis using Cons.prems(1)[of x e] by simp
  next
    case (Inr y)
    then have ex: "\<exists>x \<in> set xs. \<exists>e. f x = Inl e" using Cons.prems(2) by auto
    have "mapM f xs = Inl e0"
    proof (rule Cons.IH)
      show "e = e0" if "x' \<in> set xs" "f x' = Inl e" for x' e
        using Cons.prems(1)[of x' e] that by simp
    qed (rule ex)
    then show ?thesis using Inr by simp
  qed
qed

lemma py_index_nat:
  "py_index xs (int i) = (if i < length xs then Inr (xs ! i) else Inl IndexError)"
  by (simp add: py_index_def Let_def)

subsection \<open>The restraint force of a periodic variable\<close>

lemma rint_near_one:
  assumes "0 < t" "t < 1 / 2"
  shows "rint (1 - t) = 1"
proof -
  have "\<lfloor>1 - t\<rfloor> = 0" using assms by (simp add: floor_eq_iff)
  then show ?thesis using assms by (simp add: rint_def Let_def)
qed

lemma rint_near_zero:
  assumes "0 < t" "t < 1 / 2"
  shows "rint (- t) = 0"
proof -
  have "\<lfloor>- t\<rfloor> = - 1" using assms by (simp add: floor_eq_iff)
  then show ?thesis using assms by (simp add: rint_def Let_def)
qed

lemma collect_forces:
  "collect cvs df = Inr (sample, fs, ranges) \<Longrightarrow> j < length cvs \<Longrightarrow>
   \<exists>c s. df (cv_id (cvs ! j)) = Some c \<and> df (''s_'' @ cv_id (cvs ! j)) = Some s \<and>
         sample ! j = s \<and> fs ! j = map (force_function (cvs ! j)) (map2 (-) c s)"
proof (induction cvs arbitrary: sample fs ranges j)
  case Nil
  then show ?case by simp
next
  case (Cons cv cvs)
  from Cons.prems(1) obtain s c sample' fs' ranges' where
    s: "df (''s_'' @ cv_id cv) = Some s" and c: "df (cv_id cv) = Some c"
    and r: "collect cvs df = Inr (sample', fs', ranges')"
    and e: "sample = s # sample'" "fs = map (force_function cv) (map2 (-) c s) # fs'"
    by (auto split: option.splits sum.splits)
  show ?case
  proof (cases j)
    case 0
    then show ?thesis using s c e by simp
  next
    case (Suc k)
    then show ?thesis using Cons.IH[OF r, of k] Cons.prems(2) e by simp
  qed
qed

text \<open>
  Claim C7.  For a periodic collective variable with range \<open>R > 0\<close> and force constant
  \<open>k\<close>, the forces that the constructor of the analyzer hands to the binning are
  \<open>k * (dx - R * rint (dx / R))\<close> for the displacements \<open>dx\<close> of the table; for
  \<open>0 < \<epsilon> < R / 2\<close> the displacements \<open>R - \<epsilon>\<close> and \<open>- \<epsilon>\<close> give the same force
  \<open>- k * \<epsilon>\<close>.  Over the real numbers the two forces are equal; in floating point they
  agree up to rounding.
\<close>

theorem periodic_force_minimal_image:
  assumes "collect cvs df = Inr (sample, fs, ranges)" and "j < length cvs"
    and "periodic (cvs ! j)" and "0 < cv_range (cvs ! j)"
    and "0 < \<epsilon>" and "\<epsilon> < cv_range (cvs ! j) / 2"
  shows "(\<exists>c s. df (cv_id (cvs ! j)) = Some c \<and> df (''s_'' @ cv_id (cvs ! j)) = Some s \<and>
            fs ! j = map (\<lambda>dx. force_constant (cvs ! j) *
                                 (dx - cv_range (cvs ! j) * rint (dx / cv_range (cvs ! j))))
                         (map2 (-) c s)) \<and>
         force_function (cvs ! j) (cv_range (cvs ! j) - \<epsilon>) = - force_constant (cvs ! j) * \<epsilon> \<and>
         force_function (cvs ! j) (- \<epsilon>) = - force_constant (cvs ! j) * \<epsilon>"
proof -
  let ?cv = "cvs ! j" and ?R = "cv_range (cvs ! j)"
  have f: "force_function ?cv = (\<lambda>dx. force_constant ?cv * (dx - ?R * rint (dx / ?R)))"
    using assms(3) by (simp add: force_function_def fun_eq_iff)
  have t: "0 < \<epsilon> / ?R" "\<epsilon> / ?R < 1 / 2" using assms(4,5,6) by (simp_all add: field_simps)
  have "(?R - \<epsilon>) / ?R = 1 - \<epsilon> / ?R" using assms(4) by (simp add: field_simps)
  then have a: "rint ((?R - \<epsilon>) / ?R) = 1" using rint_near_one[OF t] by simp
  have "(- \<epsilon>) / ?R = - (\<epsilon> / ?R)" by simp
  then have b: "rint ((- \<epsilon>) / ?R) = 0" using rint_near_zero[OF t] by simp
  have "force_function ?cv (?R - \<epsilon>) = - force_constant ?cv * \<epsilon>"
    unfolding f a by (simp add: algebra_simps)
  moreover have "force_function ?cv (- \<epsilon>) = - force_constant ?cv * \<epsilon>"
    unfolding f b by simp
  ultimately show ?thesis using collect_forces[OF assms(1,2)] f by auto
qed

theorem periodic_force_minimal_image_witness:
  "collect [periodic_cv ''a'' 4 10] wrap_table = Inr ([[0, 0]], [[- 10, - 10]], [(0, 4)]) \<and>
   (0::nat) < length [periodic_cv ''a'' 4 10] \<and>
   periodic ([periodic_cv ''a'' 4 10] ! 0) \<and>
   0 < cv_range ([periodic_cv ''a'' 4 10] ! 0) \<and>
   (0::real) < 1 \<and> 1 < cv_range ([periodic_cv ''a'' 4 10] ! 0) / 2 \<and>
   force_function (periodic_cv ''a'' 4 10) (4 - 1) = - 10 \<and>
   force_function (periodic_cv ''a'' 4 10) (- 1) = - 10"
proof -
  have r1: "rint (3 / 4) = 1" and r2: "rint (- (1 / 4)) = 0"
    by (simp_all add: rint_def Let_def)
  have h1: "collect [periodic_cv ''a'' 4 10] wrap_table =
            Inr ([[0, 0]], [[- 10, - 10]], [(0, 4)])"
    by (simp add: periodic_cv_def wrap_table_def force_function_def r1 r2)
  have h2: "(0::nat) < length [periodic_cv ''a'' 4 10]" by simp
  have h3: "periodic ([periodic_cv ''a'' 4 10] ! 0)"
    and h4: "0 < cv_range ([periodic_cv ''a'' 4 10] ! 0)"
    and h6: "1 < cv_range ([periodic_cv ''a'' 4 10] ! 0) / 2"
    by (simp_all add: periodic_cv_def)
  have h5: "(0::real) < 1" by simp
  have "force_function ([periodic_cv ''a'' 4 10] ! 0)
          (cv_range ([periodic_cv ''a'' 4 10] ! 0) - 1) =
        - force_constant ([periodic_cv ''a'' 4 10] ! 0) * 1"
    and "force_function ([periodic_cv ''a'' 4 10] ! 0) (- 1) =
        - force_constant ([periodic_cv ''a'' 4 10] ! 0) * 1"
    using periodic_force_minimal_image[OF h1 h2 h3 h4 h5 h6] by simp_all
  then have "force_function (periodic_cv ''a'' 4 10) (4 - 1) = - 10"
    and "force_function (periodic_cv ''a'' 4 10) (- 1) = - 10"
    by (simp_all add: periodic_cv_def)
  then show ?thesis using h1 h2 h3 h4 h5 h6 by blast
qed

subsection \<open>The anchors of an analyzer\<close>

lemma take_index_Inr:
  "take_index a index = Inr b \<Longrightarrow> b = map ((!) a) index \<and> (\<forall>i \<in> set index. i < length a)"
  by (auto simp: take_index_def list_all_iff split: if_splits)

lemma np_where_positive_set:
  "set (np_where_positive h) = {k. k < length h \<and> 0 < h ! k}"
  by (auto simp: np_where_positive_def)

lemma filter_nth_upt:
  "map ((!) h) (filter (\<lambda>i. P (h ! i)) [0..<length h]) = filter P h"
proof -
  have "filter P h = filter P (map ((!) h) [0..<length h])" by (simp add: map_nth)
  also have "\<dots> = map ((!) h) (filter (P \<circ> (!) h) [0..<length h])" by (rule filter_map)
  finally show ?thesis by (simp add: comp_def)
qed

lemma selected_rows:
  assumes "mapM (\<lambda>i. bnd (py_index means (int (k + i))) (\<lambda>a. take_index a index)) [0..<n] = Inr cs"
  shows "length cs = n \<and>
         (\<forall>i < n. k + i < length means \<and> cs ! i = map ((!) (means ! (k + i))) index \<and>
                   (\<forall>j \<in> set index. j < length (means ! (k + i))))"
proof -
  have l: "length cs = n"
    and a: "\<forall>i < n. bnd (py_index means (int (k + i))) (\<lambda>a. take_index a index) = Inr (cs ! i)"
    using mapM_Inr[OF assms] by simp_all
  have "k + i < length means \<and> cs ! i = map ((!) (means ! (k + i))) index \<and>
        (\<forall>j \<in> set index. j < length (means ! (k + i)))" if "i < n" for i
  proof -
    have b: "bnd (py_index means (int (k + i))) (\<lambda>a. take_index a index) = Inr (cs ! i)"
      using a that by simp
    then have lt: "k + i < length means"
      unfolding py_index_nat by (cases "k + i < length means") simp_all
    then have "take_index (means ! (k + i)) index = Inr (cs ! i)"
      using b unfolding py_index_nat by simp
    then show ?thesis using take_index_Inr lt by blast
  qed
  then show ?thesis using l by simp
qed

lemma Analyzer_init_result:
  assumes "Analyzer_init stats ufed df bins = Inr a"
  shows "\<exists>sample fs ranges counts means.
     collect (variables ufed) df = Inr (sample, fs, ranges) \<and>
     binned_count stats sample (bins_of a) ranges = Inr counts \<and>
     binned_mean stats sample (sample @ fs) (bins_of a) ranges = Inr means \<and>
     set (np_where_positive counts) = {k. k < length counts \<and> 0 < counts ! k} \<and>
     histogram a = map ((!) counts) (np_where_positive counts) \<and>
     histogram a = filter (\<lambda>c. 0 < c) counts \<and>
     (\<forall>h \<in> set (histogram a). 0 < h) \<and>
     length (centers a) = length (variables ufed) \<and>
     length (mean_forces a) = length (variables ufed) \<and>
     (\<forall>i < length (variables ufed).
        centers a ! i = map ((!) (means ! i)) (np_where_positive counts) \<and>
        mean_forces a ! i =
          map ((!) (means ! (length (variables ufed) + i))) (np_where_positive counts)) \<and>
     (\<forall>c \<in> set (centers a) \<union> set (mean_forces a). length c = length (histogram a))"
proof -
  let ?n = "length (variables ufed)"
  let ?bl = "case bins of BinsList bs \<Rightarrow> bs | BinsScalar b \<Rightarrow> replicate ?n b"
  from assms obtain sample fs ranges counts means cs ms where
    col: "collect (variables ufed) df = Inr (sample, fs, ranges)"
    and cnt: "binned_count stats sample ?bl ranges = Inr counts"
    and mns: "binned_mean stats sample (sample @ fs) ?bl ranges = Inr means"
    and cs: "mapM (\<lambda>i. bnd (py_index means (int i)) (\<lambda>a. take_index a (np_where_positive counts)))
               [0..<?n] = Inr cs"
    and ms: "mapM (\<lambda>i. bnd (py_index means (int (?n + i)))
                          (\<lambda>a. take_index a (np_where_positive counts))) [0..<?n] = Inr ms"
    and a: "a = \<lparr>ufed_of = ufed, bins_of = ?bl,
                 histogram = map ((!) counts) (np_where_positive counts),
                 centers = cs, mean_forces = ms\<rparr>"
    unfolding Analyzer_init_def Let_def bnd_eq_Inr by (auto simp: bnd_eq_Inr)
  have C: "length cs = ?n"
    "\<forall>i < ?n. cs ! i = map ((!) (means ! i)) (np_where_positive counts)"
    using selected_rows[of means 0 "np_where_positive counts" ?n cs] cs by simp_all
  have M: "length ms = ?n"
    "\<forall>i < ?n. ms ! i = map ((!) (means ! (?n + i))) (np_where_positive counts)"
    using selected_rows[OF ms] by simp_all
  have h: "histogram a = map ((!) counts) (np_where_positive counts)" by (simp add: a)
  have hf: "histogram a = filter (\<lambda>c. 0 < c) counts"
    unfolding h np_where_positive_def by (rule filter_nth_upt)
  have len: "length c = length (histogram a)" if "c \<in> set (centers a) \<union> set (mean_forces a)" for c
  proof -
    from that obtain i where "i < ?n" "c = cs ! i \<or> c = ms ! i"
      using C(1) M(1) by (auto simp: a in_set_conv_nth)
    then show ?thesis using C(2) M(2) h by auto
  qed
  show ?thesis
    apply (rule exI[of _ sample], rule exI[of _ fs], rule exI[of _ ranges],
        rule exI[of _ counts], rule exI[of _ means])
    using col cnt mns np_where_positive_set[of counts] h hf C M len
    by (simp add: a)
qed

text \<open>
  Claim C9.  When the constructor returns an analyzer, the retained histogram is the list
  of the positive counts, in order; the selected positions are exactly the cells whose
  count is positive; \<open>centers\<close> and \<open>mean_forces\<close> hold one array for each collective
  variable, which is the array of means of that variable at the selected positions; and all
  of these arrays are as long as the retained histogram.
\<close>

theorem anchors_are_nonempty_cells:
  assumes "Analyzer_init stats ufed df bins = Inr a"
  shows "\<exists>sample fs ranges counts means.
     collect (variables ufed) df = Inr (sample, fs, ranges) \<and>
     binned_count stats sample (bins_of a) ranges = Inr counts \<and>
     binned_mean stats sample (sample @ fs) (bins_of a) ranges = Inr means \<and>
     set (np_where_positive counts) = {k. k < length counts \<and> 0 < counts ! k} \<and>
     histogram a = map ((!) counts) (np_where_positive counts) \<and>
     histogram a = filter (\<lambda>c. 0 < c) counts \<and>
     (\<forall>h \<in> set (histogram a). 0 < h) \<and>
     length (centers a) = length (variables ufed) \<and>
     length (mean_forces a) = length (variables ufed) \<and>
     (\<forall>i < length (variables ufed).
        centers a ! i = map ((!) (means ! i)) (np_where_positive counts) \<and>
        mean_forces a ! i =
          map ((!) (means ! (length (variables ufed) + i))) (np_where_positive counts)) \<and>
     (\<forall>c \<in> set (centers a) \<union> set (mean_forces a). length c = length (histogram a))"
  using assms by (rule Analyzer_init_result)

theorem anchors_are_nonempty_cells_witness:
  "Analyzer_init three_cell_stats one_dim_ufed one_row_table (BinsScalar 3) =
     Inr \<lparr>ufed_of = one_dim_ufed, bins_of = [3], histogram = [2, 1], centers = [[1, 9]],
          mean_forces = [[5, 7]]\<rparr> \<and>
   (\<exists>counts. binned_count three_cell_stats [[0]] [3] [(0, 1)] = Inr counts \<and>
             [2, 1] = filter (\<lambda>c. 0 < c) counts \<and>
             set (np_where_positive counts) = {k. k < length counts \<and> 0 < counts ! k})"
proof -
  let ?a = "\<lparr>ufed_of = one_dim_ufed, bins_of = [3], histogram = [2, 1], centers = [[1, 9]],
            mean_forces = [[5, 7]]\<rparr>"
  have w: "np_where_positive [2, 0, 1] = [0, 2]"
    by (simp add: np_where_positive_def eval_nat_numeral)
  have h: "Analyzer_init three_cell_stats one_dim_ufed one_row_table (BinsScalar 3) = Inr ?a"
    by (simp add: Analyzer_init_def one_dim_ufed_def gaussian_cv_def one_row_table_def
        three_cell_stats_def w py_index_def take_index_def)
  from anchors_are_nonempty_cells[OF h] obtain sample fs ranges counts means where
    c: "collect (variables one_dim_ufed) one_row_table = Inr (sample, fs, ranges)"
    and b: "binned_count three_cell_stats sample (bins_of ?a) ranges = Inr counts"
    and f: "histogram ?a = filter (\<lambda>c. 0 < c) counts"
    and s: "set (np_where_positive counts) = {k. k < length counts \<and> 0 < counts ! k}"
    by blast
  have "sample = [[0]]" "ranges = [(0, 1)]"
    using c by (simp_all add: one_dim_ufed_def gaussian_cv_def one_row_table_def)
  then show ?thesis using h b f s by auto
qed

lemma Analyzer_init_shape:
  assumes "Analyzer_init stats ufed df bins = Inr a"
  shows "ufed_of a = ufed" and "length (centers a) = length (variables ufed)"
    and "c \<in> set (centers a) \<Longrightarrow> length c = length (histogram a)"
proof -
  from Analyzer_init_result[OF assms] show "length (centers a) = length (variables ufed)"
    and "c \<in> set (centers a) \<Longrightarrow> length c = length (histogram a)" by auto
  show "ufed_of a = ufed"
    using assms unfolding Analyzer_init_def Let_def by (auto simp: bnd_eq_Inr)
qed

subsection \<open>The kernel functions\<close>

lemma variances_of_error:
  assumes "variances_of std self sigma = Inl e"
  shows "e = IndexError \<or> e = ZeroDivisionError"
proof (cases sigma)
  case SigmaNone
  let ?f = "\<lambda>z. bnd (py_index (bins_of self) (int (fst z)))
                  (\<lambda>b. if b = 0 then Inl ZeroDivisionError
                       else Inr ((cv_range (snd z) / real_of_int b)\<^sup>2))"
  have m: "mapM ?f (enumerate 0 (variables (ufed_of self))) = Inl e"
    using assms SigmaNone by (simp add: variances_of_def case_prod_unfold)
  from mapM_Inl[OF m] show ?thesis
    unfolding py_index_nat by (auto split: if_splits)
qed (use assms in \<open>simp_all add: variances_of_def\<close>)

lemma variances_of_ok:
  assumes "sigma = SigmaNone \<longrightarrow>
           length (variables (ufed_of self)) \<le> length (bins_of self) \<and> 0 \<notin> set (bins_of self)"
  shows "\<exists>vs. variances_of std self sigma = Inr vs"
proof (cases sigma)
  case SigmaNone
  let ?f = "\<lambda>z. bnd (py_index (bins_of self) (int (fst z)))
                  (\<lambda>b. if b = 0 then Inl ZeroDivisionError
                       else Inr ((cv_range (snd z) / real_of_int b)\<^sup>2))"
  let ?g = "\<lambda>z. (cv_range (snd z) / real_of_int (bins_of self ! fst z))\<^sup>2"
  have "?f z = Inr (?g z)" if "z \<in> set (enumerate 0 (variables (ufed_of self)))" for z
  proof -
    have "fst z < length (variables (ufed_of self))"
      using that by (simp add: in_set_enumerate_eq)
    then have "fst z < length (bins_of self)"
      using assms SigmaNone by simp
    moreover then have "bins_of self ! fst z \<noteq> 0"
      using assms SigmaNone by (metis nth_mem)
    ultimately show ?thesis unfolding py_index_nat by simp
  qed
  then have "mapM ?f (enumerate 0 (variables (ufed_of self))) =
             Inr (map ?g (enumerate 0 (variables (ufed_of self))))"
    by (rule mapM_all_Inr)
  then show ?thesis using SigmaNone by (simp add: variances_of_def case_prod_unfold)
qed (simp_all add: variances_of_def)

lemma build_kernels_error:
  "build_kernels zs acc = Inl e \<Longrightarrow> e = ZeroDivisionError"
  by (induction zs acc rule: build_kernels.induct) (auto split: if_splits)

lemma build_kernels_ok:
  "\<forall>z \<in> set zs. cv_range (fst z) \<noteq> 0 \<Longrightarrow> \<exists>r. build_kernels zs acc = Inr r"
  by (induction zs acc rule: build_kernels.induct) auto

lemma build_kernels_periodic_ok:
  "\<forall>z \<in> set zs. periodic (fst z) \<longrightarrow> cv_range (fst z) \<noteq> 0 \<Longrightarrow>
   \<exists>r. build_kernels zs acc = Inr r"
  by (induction zs acc rule: build_kernels.induct) auto

lemma build_kernels_zero_range:
  "\<exists>z \<in> set zs. periodic (fst z) \<and> cv_range (fst z) = 0 \<Longrightarrow>
   build_kernels zs acc = Inl ZeroDivisionError"
  by (induction zs acc rule: build_kernels.induct) auto

lemma build_kernels_scoped:
  "build_kernels zs (sc, ex, de) = Inr (sc', ex', de') \<Longrightarrow> well_scoped sc ex de \<Longrightarrow>
   well_scoped sc' ex' de' \<and> length ex' = length ex + length zs"
proof (induction zs "(sc, ex, de)" arbitrary: sc ex de rule: build_kernels.induct)
  case (1 acc)
  then show ?case by simp
next
  case (2 cv var rest sc ex de)
  show ?case
  proof (cases "periodic cv")
    case True
    then have nz: "cv_range cv \<noteq> 0" using "2.prems"(1) by (auto split: if_splits)
    have "well_scoped (sc\<lparr>variance := Some var, factor := Some (2 * pi / cv_range cv)\<rparr>)
            (ex @ [PeriodicExponent]) (de @ [PeriodicDerivative])"
      using "2.prems"(2) by (auto simp: well_scoped_def)
    then show ?thesis using "2.hyps"(1)[OF True nz] "2.prems"(1) True nz by simp
  next
    case False
    have "well_scoped (sc\<lparr>variance := Some var\<rparr>)
            (ex @ [GaussianExponent]) (de @ [GaussianDerivative])"
      using "2.prems"(2) by (auto simp: well_scoped_def)
    then show ?thesis using "2.hyps"(2)[OF False] "2.prems"(1) False by simp
  qed
qed

lemma well_scoped_init: "well_scoped \<lparr>factor = None, variance = None\<rparr> [] []"
  by (simp add: well_scoped_def)

lemma call_scoped:
  assumes "well_scoped sc ex de" and "i < length ex"
  shows "call sc (ex ! i) y = Inr (val (call sc (ex ! i) y))"
    and "call sc (de ! i) y = Inr (val (call sc (de ! i) y))"
proof -
  have m: "ex ! i \<in> set ex" using assms(2) by simp
  have k: "ex ! i = PeriodicExponent \<or> ex ! i = GaussianExponent"
    using m assms(1) unfolding well_scoped_def by blast
  have ne: "variance sc \<noteq> None"
    using m assms(1) unfolding well_scoped_def by fastforce
  have f: "ex ! i = PeriodicExponent \<Longrightarrow> factor sc \<noteq> None"
    using m assms(1) unfolding well_scoped_def by metis
  have d: "de ! i = derivative_of (ex ! i)"
    using assms unfolding well_scoped_def by simp
  show "call sc (ex ! i) y = Inr (val (call sc (ex ! i) y))"
    using k ne f by (cases "ex ! i") (auto simp: call_def)
  show "call sc (de ! i) y = Inr (val (call sc (de ! i) y))"
    unfolding d using k ne f by (cases "ex ! i") (auto simp: call_def)
qed

text \<open>
  Claim C1 does not hold of the code.  The closures appended to \<open>exponent\<close> and
  \<open>derivative\<close> read \<open>variance\<close> and \<open>factor\<close> when they are called, after the loop, so
  every dimension uses the variance of the last one.  For two non-periodic variables with
  ranges 1 and 2 and one bin each, the variances are 1 and 4; at \<open>x = 2\<close> the first
  dimension's exponent is \<open>- 0.5 * 2\<^sup>2 / 4 = - 1/2\<close> and its derivative is
  \<open>- 2 / 4 = - 1/2\<close>, where the claim requires \<open>- 0.5 * 2\<^sup>2 / 1 = - 2\<close> and
  \<open>- 2 / 1 = - 2\<close>.
\<close>

theorem kernel_closures_share_last_variance:
  "variances_of id two_dim_analyzer SigmaNone = Inr [1, 4] \<and>
   exponent_value id two_dim_analyzer SigmaNone 0 2 = Inr (- 1 / 2) \<and>
   derivative_value id two_dim_analyzer SigmaNone 0 2 = Inr (- 1 / 2) \<and>
   (- 0.5 * 2\<^sup>2 / 1 :: real) = - 2 \<and> (- 2 / 1 :: real) = - 2"
proof -
  have v: "variances_of id two_dim_analyzer SigmaNone = Inr [1, 4]"
    by (simp add: variances_of_def two_dim_analyzer_def gaussian_cv_def enumerate_eq_zip
        py_index_def upt_rec)
  have b: "build_kernels (zip (variables (ufed_of two_dim_analyzer)) [1, 4])
             (\<lparr>factor = None, variance = None\<rparr>, [], []) =
           Inr (\<lparr>factor = None, variance = Some 4\<rparr>, [GaussianExponent, GaussianExponent],
                [GaussianDerivative, GaussianDerivative])"
    by (simp add: two_dim_analyzer_def gaussian_cv_def)
  show ?thesis
    by (simp add: v b exponent_value_def derivative_value_def py_index_def call_def)
qed

subsection \<open>A fit without anchors\<close>

lemma min_length_le: "xs \<in> set xss \<Longrightarrow> min_length xss \<le> length xs"
  by (induction xss rule: min_length.induct) auto

lemma mapM_const_Nil: "mapM (\<lambda>i. Inr []) xs = Inr (map (\<lambda>i. []) xs)"
  by (rule mapM_all_Inr) simp

lemma concat_map_Nil: "concat (map (\<lambda>i. []) xs) = []"
  by (induction xs) simp_all

lemma fit_no_centers:
  assumes "zip_star (centers self) = []"
    and "variances_of std self sigma = Inr vs"
    and "build_kernels (zip (variables (ufed_of self)) vs)
           (\<lparr>factor = None, variance = None\<rparr>, [], []) = Inr r"
  shows "free_energy_functions lstsq std self sigma = Inl ValueError"
proof -
  obtain sc ex de where r: "r = (sc, ex, de)" by (cases r)
  show ?thesis
    unfolding free_energy_functions_def
    by (simp add: assms r Let_def mapM_const_Nil concat_map_Nil np_vstack_def)
qed

lemma fit_no_centers_error:
  assumes "zip_star (centers self) = []"
  shows "\<exists>e. free_energy_functions lstsq std self sigma = Inl e \<and>
             (e = ValueError \<or> e = IndexError \<or> e = ZeroDivisionError)"
proof (cases "variances_of std self sigma")
  case (Inl e)
  then have "free_energy_functions lstsq std self sigma = Inl e"
    by (simp add: free_energy_functions_def)
  then show ?thesis using variances_of_error[OF Inl] by auto
next
  case (Inr vs)
  show ?thesis
  proof (cases "build_kernels (zip (variables (ufed_of self)) vs)
                  (\<lparr>factor = None, variance = None\<rparr>, [], [])")
    case (Inl e)
    then have "free_energy_functions lstsq std self sigma = Inl e"
      by (simp add: free_energy_functions_def Inr)
    then show ?thesis using build_kernels_error[OF Inl] by auto
  next
    case r: (Inr r)
    show ?thesis using fit_no_centers[OF assms Inr r] by simp
  qed
qed

lemma no_anchors:
  assumes "Analyzer_init stats ufed df bins = Inr self" and "histogram self = []"
  shows "zip_star (centers self) = []"
proof (cases "centers self")
  case Nil
  then show ?thesis by (simp add: zip_star_def)
next
  case (Cons c cs)
  then have "c \<in> set (centers self)" by simp
  then have "length c = 0" using Analyzer_init_shape(3)[OF assms(1)] assms(2) by simp
  then have "min_length (centers self) = 0"
    using min_length_le[of c "centers self"] Cons by simp
  then show ?thesis by (simp add: zip_star_def)
qed

text \<open>
  Claim C2 does not hold of the code as stated: no function of the module raises an
  insufficient-data error.  For a table without rows and binned statistics without a
  populated cell, the constructor returns an analyzer with an empty histogram, and the fit
  then fails with the value error of \<open>np.vstack\<close>, which is given no row.
\<close>

theorem empty_table_counterexample:
  "Analyzer_init empty_stats one_dim_ufed empty_table (BinsScalar 2) =
     Inr \<lparr>ufed_of = one_dim_ufed, bins_of = [2], histogram = [], centers = [[]],
          mean_forces = [[]]\<rparr> \<and>
   free_energy_functions lstsq_ones id
     \<lparr>ufed_of = one_dim_ufed, bins_of = [2], histogram = [], centers = [[]],
      mean_forces = [[]]\<rparr> SigmaNone = Inl ValueError \<and>
   free_energy_functions lstsq_ones id
     \<lparr>ufed_of = one_dim_ufed, bins_of = [2], histogram = [], centers = [[]],
      mean_forces = [[]]\<rparr> SigmaNone \<noteq> Inl InsufficientDataError"
proof -
  have a: "Analyzer_init empty_stats one_dim_ufed empty_table (BinsScalar 2) =
     Inr \<lparr>ufed_of = one_dim_ufed, bins_of = [2], histogram = [], centers = [[]],
          mean_forces = [[]]\<rparr>"
    by (simp add: Analyzer_init_def one_dim_ufed_def gaussian_cv_def empty_table_def
        empty_stats_def np_where_positive_def py_index_def take_index_def eval_nat_numeral)
  have f: "free_energy_functions lstsq_ones id
     \<lparr>ufed_of = one_dim_ufed, bins_of = [2], histogram = [], centers = [[]],
      mean_forces = [[]]\<rparr> SigmaNone = Inl ValueError"
    by (simp add: free_energy_functions_def variances_of_def one_dim_ufed_def gaussian_cv_def
        enumerate_eq_zip py_index_def zip_star_def np_vstack_def)
  show ?thesis using a f by simp
qed

text \<open>
  Claim C2, amended.  For an analyzer that the constructor returned with no populated cell,
  the fit returns no result: it raises a value error, an index error or a zero-division
  error.  It is the value error of \<open>np.vstack\<close> whenever the variances and the kernel
  functions can be computed, that is when no range is zero and, for an absent \<open>sigma\<close>,
  there is a nonzero bin count for every collective variable.
\<close>

theorem fit_without_anchors:
  assumes "Analyzer_init stats ufed df bins = Inr self" and "histogram self = []"
  shows "(\<exists>e. free_energy_functions lstsq std self sigma = Inl e \<and>
              (e = ValueError \<or> e = IndexError \<or> e = ZeroDivisionError)) \<and>
         ((\<forall>cv \<in> set (variables ufed). cv_range cv \<noteq> 0) \<longrightarrow>
          (sigma = SigmaNone \<longrightarrow>
             length (variables ufed) \<le> length (bins_of self) \<and> 0 \<notin> set (bins_of self)) \<longrightarrow>
          free_energy_functions lstsq std self sigma = Inl ValueError)"
proof (intro conjI impI)
  have na: "zip_star (centers self) = []" by (rule no_anchors[OF assms])
  show "\<exists>e. free_energy_functions lstsq std self sigma = Inl e \<and>
            (e = ValueError \<or> e = IndexError \<or> e = ZeroDivisionError)"
    by (rule fit_no_centers_error[OF na])
  assume nz: "\<forall>cv \<in> set (variables ufed). cv_range cv \<noteq> 0"
    and bins: "sigma = SigmaNone \<longrightarrow>
               length (variables ufed) \<le> length (bins_of self) \<and> 0 \<notin> set (bins_of self)"
  have u: "ufed_of self = ufed" by (rule Analyzer_init_shape(1)[OF assms(1)])
  obtain vs where vs: "variances_of std self sigma = Inr vs"
    using variances_of_ok[of sigma self std] bins u by auto
  have "\<forall>z \<in> set (zip (variables (ufed_of self)) vs). cv_range (fst z) \<noteq> 0"
    using nz u by (auto dest: set_zip_leftD)
  then obtain r where
    "build_kernels (zip (variables (ufed_of self)) vs) (\<lparr>factor = None, variance = None\<rparr>, [], []) =
     Inr r"
    using build_kernels_ok by blast
  then show "free_energy_functions lstsq std self sigma = Inl ValueError"
    by (rule fit_no_centers[OF na vs])
qed

theorem fit_without_anchors_witness:
  "Analyzer_init empty_stats one_dim_ufed empty_table (BinsScalar 2) =
     Inr \<lparr>ufed_of = one_dim_ufed, bins_of = [2], histogram = [], centers = [[]],
          mean_forces = [[]]\<rparr> \<and>
   histogram \<lparr>ufed_of = one_dim_ufed, bins_of = [2], histogram = [], centers = [[]],
              mean_forces = [[]]\<rparr> = [] \<and>
   free_energy_functions lstsq_ones id
     \<lparr>ufed_of = one_dim_ufed, bins_of = [2], histogram = [], centers = [[]],
      mean_forces = [[]]\<rparr> (SigmaScalar 1) = Inl ValueError"
proof -
  let ?a = "\<lparr>ufed_of = one_dim_ufed, bins_of = [2], histogram = [], centers = [[]],
            mean_forces = [[]]\<rparr>"
  have h1: "Analyzer_init empty_stats one_dim_ufed empty_table (BinsScalar 2) = Inr ?a"
    by (simp add: Analyzer_init_def one_dim_ufed_def gaussian_cv_def empty_table_def
        empty_stats_def np_where_positive_def py_index_def take_index_def eval_nat_numeral)
  have h2: "histogram ?a = []" by simp
  have nz: "\<forall>cv \<in> set (variables one_dim_ufed). cv_range cv \<noteq> 0"
    by (simp add: one_dim_ufed_def gaussian_cv_def)
  have "free_energy_functions lstsq_ones id ?a (SigmaScalar 1) = Inl ValueError"
    using fit_without_anchors[OF h1 h2, of lstsq_ones id "SigmaScalar 1"] nz by simp
  then show ?thesis using h1 h2 by blast
qed

subsection \<open>A sequence of variances of the wrong length\<close>

lemma zip_take_right: "zip xs (take (length xs) ys) = zip xs ys"
proof (induction xs arbitrary: ys)
  case Nil
  then show ?case by simp
next
  case (Cons x xs)
  then show ?case by (cases ys) simp_all
qed

lemma kernel_short_exponent:
  assumes ws: "well_scoped sc ex de" and short: "length ex < n"
  shows "kernel sc ex n d = Inl IndexError"
proof -
  let ?f = "\<lambda>i. bnd (py_index ex (int i)) (\<lambda>c. bnd (py_index d (int i)) (\<lambda>xi. call sc c xi))"
  have kind: "e = IndexError" if "i \<in> set [0..<n]" "?f i = Inl e" for i e
  proof (cases "i < length ex")
    case True
    then show ?thesis
      using that(2) call_scoped(1)[OF ws True, of "d ! i"] unfolding py_index_nat
      by (auto split: if_splits)
  next
    case False
    then show ?thesis using that(2) unfolding py_index_nat by simp
  qed
  have "?f (length ex) = Inl IndexError" unfolding py_index_nat by simp
  then have "\<exists>i \<in> set [0..<n]. \<exists>e. ?f i = Inl e" using short by auto
  then have "mapM ?f [0..<n] = Inl IndexError"
    using kind by (intro mapM_error_kind) auto
  then show ?thesis by (simp add: kernel_def)
qed

lemma fit_short_exponent:
  assumes vs: "variances_of std self sigma = Inr vs"
    and bk: "build_kernels (zip (variables (ufed_of self)) vs)
               (\<lparr>factor = None, variance = None\<rparr>, [], []) = Inr (sc, ex, de)"
    and short: "length ex < length (variables (ufed_of self))"
    and cs: "zip_star (centers self) \<noteq> []"
  shows "free_energy_functions lstsq std self sigma = Inl IndexError"
proof -
  let ?n = "length (variables (ufed_of self))"
  let ?cs = "zip_star (centers self)"
  have ws: "well_scoped sc ex de"
    using build_kernels_scoped[OF bk well_scoped_init] by simp
  obtain x0 rest where c: "?cs = x0 # rest" using cs by (cases ?cs) auto
  have g: "gradient sc ex de ?n d (int i) = Inl IndexError" for d i
    by (simp add: gradient_def kernel_short_exponent[OF ws short])
  have b: "np_broadcast (-) x0 x0 = Inr (map2 (-) x0 x0)" by (simp add: np_broadcast_def)
  have "0 < ?n" using short by linarith
  then have up: "[0..<?n] = 0 # [1..<?n]" by (simp add: upt_conv_Cons)
  have "mapM (\<lambda>i. mapM (\<lambda>x. mapM (\<lambda>xc. bnd (np_broadcast (-) x xc) (\<lambda>d.
                      gradient sc ex de ?n d (int i))) ?cs) ?cs) [0..<?n] = Inl IndexError"
    unfolding up c by (simp add: b g)
  then show ?thesis
    unfolding free_energy_functions_def by (simp add: vs bk Let_def)
qed

text \<open>
  Claim C3 does not hold of the code: with one collective variable and the sequence
  \<open>[1, 2]\<close> for \<open>sigma\<close>, the call signals nothing and returns a fit, for which only the
  first entry has been read.
\<close>

theorem long_sigma_counterexample:
  "length [1, 2 :: real] \<noteq> length (variables (ufed_of one_dim_analyzer)) \<and>
   free_energy_functions lstsq_ones id one_dim_analyzer (SigmaList [1, 2]) =
     Inr \<lparr>fit_scope = \<lparr>factor = None, variance = Some 1\<rparr>,
          fit_exponent = [GaussianExponent], fit_derivative = [GaussianDerivative],
          fit_n = 1, fit_centers = [[0]], fit_A = [1], fit_minimum = 1\<rparr>"
  by (simp add: free_energy_functions_def variances_of_def one_dim_analyzer_def one_dim_ufed_def
      gaussian_cv_def py_index_def zip_star_def np_vstack_def np_hstack_def np_broadcast_def
      gradient_def kernel_def call_def lstsq_ones_def np_dot_def)

text \<open>
  Claim C3, amended.  The call never compares the length of the sequence with the number of
  collective variables.  A longer sequence is accepted: the call does what it does for the
  sequence cut to that number of entries.  A shorter sequence never yields a fit and the
  call does not proceed with a padded list: it ends with a zero-division error when one of
  the variables that the sequence reaches is periodic with a range of zero, raised while
  the kernel functions are built; otherwise with the value error of \<open>np.vstack\<close> when the
  analyzer has no anchor; otherwise with an index error, raised when the fit evaluates the
  first kernel.  None of them is raised by a check before the fit.
\<close>

theorem sigma_list_length_mismatch:
  "(length (variables (ufed_of self)) < length vs \<longrightarrow>
      free_energy_functions lstsq std self (SigmaList vs) =
      free_energy_functions lstsq std self
        (SigmaList (take (length (variables (ufed_of self))) vs))) \<and>
   (length vs < length (variables (ufed_of self)) \<longrightarrow>
      (\<exists>e. free_energy_functions lstsq std self (SigmaList vs) = Inl e \<and>
           (e = IndexError \<or> e = ValueError \<or> e = ZeroDivisionError)) \<and>
      free_energy_functions lstsq std self (SigmaList vs) =
        (if \<exists>cv \<in> set (take (length vs) (variables (ufed_of self))).
              periodic cv \<and> cv_range cv = 0
         then Inl ZeroDivisionError
         else if zip_star (centers self) = [] then Inl ValueError
         else Inl IndexError))"
proof (intro conjI impI)
  let ?vars = "variables (ufed_of self)"
  have "zip ?vars (map (\<lambda>v. (std v)\<^sup>2) (take (length ?vars) vs)) =
        zip ?vars (map (\<lambda>v. (std v)\<^sup>2) vs)"
    using zip_take_right[of ?vars "map (\<lambda>v. (std v)\<^sup>2) vs"] by (simp add: take_map)
  then show "free_energy_functions lstsq std self (SigmaList vs) =
      free_energy_functions lstsq std self (SigmaList (take (length ?vars) vs))"
    by (simp add: free_energy_functions_def variances_of_def)
next
  let ?vars = "variables (ufed_of self)"
  let ?zs = "zip ?vars (map (\<lambda>v. (std v)\<^sup>2) vs)"
  let ?fit = "free_energy_functions lstsq std self (SigmaList vs)"
  let ?zero = "\<exists>cv \<in> set (take (length vs) ?vars). periodic cv \<and> cv_range cv = 0"
  assume short: "length vs < length ?vars"
  have v: "variances_of std self (SigmaList vs) = Inr (map (\<lambda>v. (std v)\<^sup>2) vs)"
    by (simp add: variances_of_def)
  have "map fst ?zs = take (length vs) ?vars"
    using short by (simp add: map_fst_zip_take min_def)
  then have fsts: "fst ` set ?zs = set (take (length vs) ?vars)"
    by (metis set_map)
  have eq: "?fit = (if ?zero then Inl ZeroDivisionError
                    else if zip_star (centers self) = [] then Inl ValueError
                    else Inl IndexError)"
  proof (cases ?zero)
    case True
    then have "\<exists>z \<in> set ?zs. periodic (fst z) \<and> cv_range (fst z) = 0"
      unfolding fsts[symmetric] by simp
    then have "build_kernels ?zs (\<lparr>factor = None, variance = None\<rparr>, [], []) =
               Inl ZeroDivisionError"
      by (rule build_kernels_zero_range)
    then have "?fit = Inl ZeroDivisionError"
      by (simp add: free_energy_functions_def v)
    then show ?thesis using True by simp
  next
    case False
    then have "\<forall>z \<in> set ?zs. periodic (fst z) \<longrightarrow> cv_range (fst z) \<noteq> 0"
      unfolding fsts[symmetric] by simp
    then obtain r where r: "build_kernels ?zs (\<lparr>factor = None, variance = None\<rparr>, [], []) = Inr r"
      using build_kernels_periodic_ok by blast
    then obtain sc ex de where
      bk: "build_kernels ?zs (\<lparr>factor = None, variance = None\<rparr>, [], []) = Inr (sc, ex, de)"
      by (cases r) auto
    have "length ex = length ?zs"
      using build_kernels_scoped[OF bk well_scoped_init] by simp
    then have len: "length ex < length ?vars" using short by simp
    show ?thesis
    proof (cases "zip_star (centers self) = []")
      case True
      then show ?thesis using fit_no_centers[OF True v r] False by simp
    next
      case cs: False
      then show ?thesis using fit_short_exponent[OF v bk len cs] False by simp
    qed
  qed
  show "?fit = (if ?zero then Inl ZeroDivisionError
                else if zip_star (centers self) = [] then Inl ValueError
                else Inl IndexError)"
    by (rule eq)
  show "\<exists>e. ?fit = Inl e \<and> (e = IndexError \<or> e = ValueError \<or> e = ZeroDivisionError)"
    unfolding eq by simp
qed

theorem sigma_list_length_mismatch_witness:
  "length (variables (ufed_of one_dim_analyzer)) < length [1, 2 :: real] \<and>
   free_energy_functions lstsq_ones id one_dim_analyzer (SigmaList [1, 2]) =
   free_energy_functions lstsq_ones id one_dim_analyzer (SigmaList [1]) \<and>
   length [1 :: real] < length (variables (ufed_of two_dim_analyzer)) \<and>
   free_energy_functions lstsq_ones id two_dim_analyzer (SigmaList [1]) = Inl IndexError \<and>
   length [1 :: real] < length (variables (ufed_of unpopulated_analyzer)) \<and>
   free_energy_functions lstsq_ones id unpopulated_analyzer (SigmaList [1]) = Inl ValueError \<and>
   length [1 :: real] < length (variables (ufed_of zero_range_analyzer)) \<and>
   free_energy_functions lstsq_ones id zero_range_analyzer (SigmaList [1]) =
     Inl ZeroDivisionError"
proof -
  have a1: "length (variables (ufed_of one_dim_analyzer)) < length [1, 2 :: real]"
    by (simp add: one_dim_analyzer_def one_dim_ufed_def)
  have "take (length (variables (ufed_of one_dim_analyzer))) [1, 2 :: real] = [1]"
    by (simp add: one_dim_analyzer_def one_dim_ufed_def)
  then have a2: "free_energy_functions lstsq_ones id one_dim_analyzer (SigmaList [1, 2]) =
                 free_energy_functions lstsq_ones id one_dim_analyzer (SigmaList [1])"
    using sigma_list_length_mismatch[of one_dim_analyzer "[1, 2]" lstsq_ones id] a1 by simp
  have b1: "length [1 :: real] < length (variables (ufed_of two_dim_analyzer))"
    by (simp add: two_dim_analyzer_def)
  have b2: "free_energy_functions lstsq_ones id two_dim_analyzer (SigmaList [1]) = Inl IndexError"
    using sigma_list_length_mismatch[of two_dim_analyzer "[1]" lstsq_ones id] b1
    by (simp add: two_dim_analyzer_def gaussian_cv_def zip_star_def)
  have c1: "length [1 :: real] < length (variables (ufed_of unpopulated_analyzer))"
    by (simp add: unpopulated_analyzer_def)
  have c2: "free_energy_functions lstsq_ones id unpopulated_analyzer (SigmaList [1]) =
            Inl ValueError"
    using sigma_list_length_mismatch[of unpopulated_analyzer "[1]" lstsq_ones id] c1
    by (simp add: unpopulated_analyzer_def gaussian_cv_def zip_star_def)
  have d1: "length [1 :: real] < length (variables (ufed_of zero_range_analyzer))"
    by (simp add: zero_range_analyzer_def)
  have d2: "free_energy_functions lstsq_ones id zero_range_analyzer (SigmaList [1]) =
            Inl ZeroDivisionError"
    using sigma_list_length_mismatch[of zero_range_analyzer "[1]" lstsq_ones id] d1
    by (simp add: zero_range_analyzer_def periodic_cv_def)
  show ?thesis using a1 a2 b1 b2 c1 c2 d1 d2 by blast
qed

subsection \<open>The mean force and the potential\<close>

lemma kernel_value:
  assumes ws: "well_scoped sc ex de" and "n \<le> length ex" and "n \<le> length d"
  shows "kernel sc ex n d = Inr (exp (\<Sum>i\<leftarrow>[0..<n]. val (call sc (ex ! i) (d ! i))))"
proof -
  let ?f = "\<lambda>i. bnd (py_index ex (int i)) (\<lambda>c. bnd (py_index d (int i)) (\<lambda>xi. call sc c xi))"
  have "?f i = Inr (val (call sc (ex ! i) (d ! i)))" if "i \<in> set [0..<n]" for i
  proof -
    have i: "i < length ex" "i < length d" using that assms(2,3) by simp_all
    show ?thesis
      unfolding py_index_nat using i call_scoped(1)[OF ws i(1), of "d ! i"] by simp
  qed
  then have "mapM ?f [0..<n] = Inr (map (\<lambda>i. val (call sc (ex ! i) (d ! i))) [0..<n])"
    by (rule mapM_all_Inr)
  then show ?thesis by (simp add: kernel_def)
qed

lemma gradient_value:
  assumes ws: "well_scoped sc ex de" and "n \<le> length ex" and "n \<le> length d" and "k < n"
  shows "gradient sc ex de n d (int k) =
         Inr (exp (\<Sum>i\<leftarrow>[0..<n]. val (call sc (ex ! i) (d ! i))) * val (call sc (de ! k) (d ! k)))"
proof -
  have k: "k < length ex" "k < length d" "k < length de"
    using assms ws by (simp_all add: well_scoped_def)
  obtain y where y: "call sc (de ! k) (d ! k) = Inr y"
    using call_scoped(2)[OF ws k(1), of "d ! k"] by blast
  show ?thesis
    unfolding gradient_def kernel_value[OF assms(1,2,3)] py_index_nat
    using k by (simp add: y)
qed

lemma call_deriv:
  assumes ws: "well_scoped sc ex de" and i: "i < length ex"
  shows "((\<lambda>y. val (call sc (ex ! i) y)) has_real_derivative val (call sc (de ! i) y0)) (at y0)"
proof -
  have m: "ex ! i \<in> set ex" using i by simp
  have k: "ex ! i = PeriodicExponent \<or> ex ! i = GaussianExponent"
    using m ws unfolding well_scoped_def by blast
  obtain v where v: "variance sc = Some v"
    using m ws unfolding well_scoped_def by fastforce
  have d: "de ! i = derivative_of (ex ! i)"
    using ws i unfolding well_scoped_def by simp
  from k show ?thesis
  proof
    assume p: "ex ! i = PeriodicExponent"
    then obtain f where f: "factor sc = Some f"
      using m ws unfolding well_scoped_def by (metis not_None_eq)
    have "((\<lambda>y. (cos (f * y) - 1) / v) has_real_derivative (- sin (f * y0) * f / v)) (at y0)"
      by (rule DERIV_cdivide) (auto intro!: derivative_eq_intros)
    then show ?thesis by (simp add: d p call_def v f)
  next
    assume g: "ex ! i = GaussianExponent"
    have "((\<lambda>y. - 0.5 * y\<^sup>2 / v) has_real_derivative (- y0 / v)) (at y0)"
      by (rule DERIV_cdivide) (auto intro!: derivative_eq_intros)
    then show ?thesis by (simp add: d g call_def v)
  qed
qed

lemma DERIV_sum_list:
  "(\<And>a. a \<in> set xs \<Longrightarrow> ((\<lambda>t. f a t) has_real_derivative f' a) (at t0)) \<Longrightarrow>
   ((\<lambda>t. \<Sum>a\<leftarrow>xs. f a t) has_real_derivative (\<Sum>a\<leftarrow>xs. f' a)) (at t0)"
proof (induction xs)
  case Nil
  then show ?case by simp
next
  case (Cons a xs)
  have "((\<lambda>t. f a t + (\<Sum>a\<leftarrow>xs. f a t)) has_real_derivative f' a + (\<Sum>a\<leftarrow>xs. f' a)) (at t0)"
    by (intro DERIV_add Cons.prems Cons.IH) simp_all
  then show ?case by simp
qed

lemma sum_list_delta:
  "k < n \<Longrightarrow> (\<Sum>i\<leftarrow>[0..<n]. if i = k then a else (0::real)) = a"
proof -
  assume "k < n"
  have "(\<Sum>i\<leftarrow>[0..<n]. if i = k then a else 0) = (\<Sum>i\<in>{0..<n}. if i = k then a else 0)"
    by (simp add: sum_list_distinct_conv_sum_set)
  also have "\<dots> = a" using \<open>k < n\<close> by (simp add: sum.delta)
  finally show ?thesis .
qed

lemma kernel_deriv:
  assumes ws: "well_scoped sc ex de" and n: "n \<le> length ex"
    and x: "length x = n" and xc: "length xc = n" and k: "k < n"
  shows "((\<lambda>t. exp (\<Sum>i\<leftarrow>[0..<n]. val (call sc (ex ! i) (map2 (-) (x[k := t]) xc ! i))))
          has_real_derivative
          exp (\<Sum>i\<leftarrow>[0..<n]. val (call sc (ex ! i) (map2 (-) x xc ! i))) *
          val (call sc (de ! k) (map2 (-) x xc ! k))) (at (x ! k))"
proof -
  let ?E = "\<lambda>i y. val (call sc (ex ! i) y)"
  let ?f = "\<lambda>i t. ?E i ((if i = k then t else x ! i) - xc ! i)"
  let ?f' = "\<lambda>i. if i = k then val (call sc (de ! k) (x ! k - xc ! k)) else 0"
  have nth: "map2 (-) (x[k := t]) xc ! i = (if i = k then t else x ! i) - xc ! i"
    if "i \<in> set [0..<n]" for i t
    using that x xc by (simp add: nth_list_update)
  have nth0: "map2 (-) x xc ! i = x ! i - xc ! i" if "i < n" for i
    using that x xc by simp
  have eq: "(\<Sum>i\<leftarrow>[0..<n]. ?E i (map2 (-) (x[k := t]) xc ! i)) = (\<Sum>i\<leftarrow>[0..<n]. ?f i t)" for t
    by (intro arg_cong[where f = sum_list] map_cong refl) (simp only: nth)
  have eq0: "(\<Sum>i\<leftarrow>[0..<n]. ?E i (map2 (-) x xc ! i)) = (\<Sum>i\<leftarrow>[0..<n]. ?f i (x ! k))"
    by (intro arg_cong[where f = sum_list] map_cong refl) (simp add: nth0)
  have each: "((\<lambda>t. ?f i t) has_real_derivative ?f' i) (at (x ! k))" if "i \<in> set [0..<n]" for i
  proof (cases "i = k")
    case True
    have "k < length ex" using k n by simp
    from call_deriv[OF ws this, of "x ! k - xc ! k"]
    have "((\<lambda>t. ?E k (t - xc ! k)) has_real_derivative
            val (call sc (de ! k) (x ! k - xc ! k)) * (1 - 0)) (at (x ! k))"
      by (intro DERIV_chain2[where f = "?E k" and g = "\<lambda>t. t - xc ! k"])
        (auto intro!: derivative_eq_intros)
    then show ?thesis using True by simp
  next
    case False
    then show ?thesis by simp
  qed
  have "((\<lambda>t. \<Sum>i\<leftarrow>[0..<n]. ?f i t) has_real_derivative (\<Sum>i\<leftarrow>[0..<n]. ?f' i)) (at (x ! k))"
    by (rule DERIV_sum_list) (rule each)
  then have S: "((\<lambda>t. \<Sum>i\<leftarrow>[0..<n]. ?f i t) has_real_derivative
               val (call sc (de ! k) (x ! k - xc ! k))) (at (x ! k))"
    by (simp only: sum_list_delta[OF k])
  have "((\<lambda>t. exp (\<Sum>i\<leftarrow>[0..<n]. ?f i t)) has_real_derivative
          exp (\<Sum>i\<leftarrow>[0..<n]. ?f i (x ! k)) * val (call sc (de ! k) (x ! k - xc ! k))) (at (x ! k))"
    by (rule DERIV_fun_exp[OF S])
  then show ?thesis
    unfolding eq eq0 by (simp only: nth0[OF k])
qed

lemma zip_star_row_length: "xc \<in> set (zip_star xss) \<Longrightarrow> length xc = length xss"
  by (auto simp: zip_star_def)

lemma fit_success:
  assumes "free_energy_functions lstsq std self sigma = Inr fm"
  shows "\<exists>vs coefficients kernels potentials.
     variances_of std self sigma = Inr vs \<and>
     build_kernels (zip (variables (ufed_of self)) vs) (\<lparr>factor = None, variance = None\<rparr>, [], []) =
       Inr (fit_scope fm, fit_exponent fm, fit_derivative fm) \<and>
     fit_n fm = length (variables (ufed_of self)) \<and>
     fit_centers fm = zip_star (centers self) \<and>
     mapM (\<lambda>i. mapM (\<lambda>x. mapM (\<lambda>xc. bnd (np_broadcast (-) x xc) (\<lambda>d.
              gradient (fit_scope fm) (fit_exponent fm) (fit_derivative fm) (fit_n fm) d (int i)))
            (fit_centers fm)) (fit_centers fm)) [0..<fit_n fm] = Inr coefficients \<and>
     concat coefficients \<noteq> [] \<and>
     mapM (\<lambda>x. mapM (\<lambda>xc. bnd (np_broadcast (-) x xc)
                               (kernel (fit_scope fm) (fit_exponent fm) (fit_n fm)))
                  (fit_centers fm)) (fit_centers fm) = Inr kernels \<and>
     np_dot kernels (fit_A fm) = Inr potentials"
  using assms unfolding free_energy_functions_def Let_def
  by (auto simp: bnd_eq_Inr np_vstack_def split: if_splits)

lemma fit_shape:
  assumes "free_energy_functions lstsq std self sigma = Inr fm"
  shows "well_scoped (fit_scope fm) (fit_exponent fm) (fit_derivative fm)"
    and "fit_n fm = length (variables (ufed_of self))"
    and "fit_centers fm = zip_star (centers self)"
    and "fit_centers fm \<noteq> []"
    and "0 < fit_n fm"
    and "length (fit_A fm) = length (fit_centers fm)"
    and "fit_n fm \<le> length (fit_exponent fm)"
proof -
  let ?sc = "fit_scope fm" and ?ex = "fit_exponent fm" and ?de = "fit_derivative fm"
  let ?n = "fit_n fm" and ?cs = "fit_centers fm"
  from fit_success[OF assms] obtain vs coefficients kernels potentials where
    bk: "build_kernels (zip (variables (ufed_of self)) vs) (\<lparr>factor = None, variance = None\<rparr>, [], []) =
       Inr (?sc, ?ex, ?de)"
    and n: "?n = length (variables (ufed_of self))"
    and cs: "?cs = zip_star (centers self)"
    and co: "mapM (\<lambda>i. mapM (\<lambda>x. mapM (\<lambda>xc. bnd (np_broadcast (-) x xc) (\<lambda>d.
              gradient ?sc ?ex ?de ?n d (int i))) ?cs) ?cs) [0..<?n] = Inr coefficients"
    and ne: "concat coefficients \<noteq> []"
    and ke: "mapM (\<lambda>x. mapM (\<lambda>xc. bnd (np_broadcast (-) x xc) (kernel ?sc ?ex ?n)) ?cs) ?cs =
             Inr kernels"
    and dot: "np_dot kernels (fit_A fm) = Inr potentials"
    by blast
  show ws: "well_scoped ?sc ?ex ?de"
    using build_kernels_scoped[OF bk well_scoped_init] by simp
  show "?n = length (variables (ufed_of self))" by (rule n)
  show "?cs = zip_star (centers self)" by (rule cs)
  from ne obtain row where row: "row \<in> set coefficients" "row \<noteq> []" by auto
  then obtain i where i: "i < length coefficients" "coefficients ! i = row"
    by (auto simp: in_set_conv_nth)
  have lc: "length coefficients = ?n" using mapM_Inr[OF co] by simp
  show pos: "0 < ?n" using i lc by simp
  have "mapM (\<lambda>x. mapM (\<lambda>xc. bnd (np_broadcast (-) x xc) (\<lambda>d.
              gradient ?sc ?ex ?de ?n d (int ([0..<?n] ! i)))) ?cs) ?cs = Inr row"
    using mapM_Inr[OF co] i lc by simp
  from mapM_Inr[OF this] have "length row = length ?cs" by simp
  then show cne: "?cs \<noteq> []" using row(2) by auto
  then have l0: "0 < length ?cs" by simp
  have lk: "length kernels = length ?cs" using mapM_Inr[OF ke] by simp
  have k0: "mapM (\<lambda>xc. bnd (np_broadcast (-) (?cs ! 0) xc) (kernel ?sc ?ex ?n)) ?cs = Inr (kernels ! 0)"
    using mapM_Inr[OF ke] l0 by simp
  have lk0: "length (kernels ! 0) = length ?cs" using mapM_Inr[OF k0] by simp
  have "kernels ! 0 \<in> set kernels" using lk l0 by simp
  moreover have "list_all (\<lambda>row. length row = length (fit_A fm)) kernels"
    using dot by (simp add: np_dot_def split: if_splits)
  ultimately have "length (kernels ! 0) = length (fit_A fm)" by (simp add: list_all_iff)
  then show "length (fit_A fm) = length ?cs" using lk0 by simp
  have "bnd (np_broadcast (-) (?cs ! 0) (?cs ! 0)) (kernel ?sc ?ex ?n) = Inr (kernels ! 0 ! 0)"
    using mapM_Inr[OF k0] l0 by simp
  then have "kernel ?sc ?ex ?n (map2 (-) (?cs ! 0) (?cs ! 0)) = Inr (kernels ! 0 ! 0)"
    by (simp add: np_broadcast_def)
  then show "?n \<le> length ?ex"
    using kernel_short_exponent[OF ws, of ?n] by (cases "length ?ex < ?n") auto
qed

lemma map2_mult_map:
  "map2 (*) A (map g cs) = map (\<lambda>p. fst p * g (snd p)) (zip A cs)"
  by (simp add: zip_map2 case_prod_unfold)

lemma potential_value:
  assumes ws: "well_scoped (fit_scope fm) (fit_exponent fm) (fit_derivative fm)"
    and n: "fit_n fm \<le> length (fit_exponent fm)"
    and A: "length (fit_A fm) = length (fit_centers fm)"
    and rows: "\<forall>xc \<in> set (fit_centers fm). length xc = fit_n fm"
    and x: "length x = fit_n fm"
  shows "potential fm x =
         Inr ((\<Sum>p\<leftarrow>zip (fit_A fm) (fit_centers fm).
                 fst p * exp (\<Sum>i\<leftarrow>[0..<fit_n fm].
                    val (call (fit_scope fm) (fit_exponent fm ! i) (map2 (-) x (snd p) ! i))))
              - fit_minimum fm)"
proof -
  let ?K = "\<lambda>xc. exp (\<Sum>i\<leftarrow>[0..<fit_n fm].
                    val (call (fit_scope fm) (fit_exponent fm ! i) (map2 (-) x xc ! i)))"
  have "bnd (np_broadcast (-) x xc) (kernel (fit_scope fm) (fit_exponent fm) (fit_n fm)) = Inr (?K xc)"
    if "xc \<in> set (fit_centers fm)" for xc
  proof -
    have l: "length xc = length x" using rows that x by simp
    then have "fit_n fm \<le> length (map2 (-) x xc)" using x by simp
    from kernel_value[OF ws n this] show ?thesis using l by (simp add: np_broadcast_def)
  qed
  then have "mapM (\<lambda>xc. bnd (np_broadcast (-) x xc)
                   (kernel (fit_scope fm) (fit_exponent fm) (fit_n fm))) (fit_centers fm) =
             Inr (map ?K (fit_centers fm))"
    by (rule mapM_all_Inr)
  then show ?thesis
    unfolding potential_def by (simp add: np_broadcast_def A map2_mult_map)
qed

lemma mean_force_value:
  assumes ws: "well_scoped (fit_scope fm) (fit_exponent fm) (fit_derivative fm)"
    and n: "fit_n fm \<le> length (fit_exponent fm)"
    and A: "length (fit_A fm) = length (fit_centers fm)"
    and rows: "\<forall>xc \<in> set (fit_centers fm). length xc = fit_n fm"
    and x: "length x = fit_n fm" and k: "k < fit_n fm"
  shows "mean_force fm x (int k) =
         Inr (- (\<Sum>p\<leftarrow>zip (fit_A fm) (fit_centers fm).
                 fst p * (exp (\<Sum>i\<leftarrow>[0..<fit_n fm].
                    val (call (fit_scope fm) (fit_exponent fm ! i) (map2 (-) x (snd p) ! i))) *
                  val (call (fit_scope fm) (fit_derivative fm ! k) (map2 (-) x (snd p) ! k)))))"
proof -
  let ?G = "\<lambda>xc. exp (\<Sum>i\<leftarrow>[0..<fit_n fm].
                    val (call (fit_scope fm) (fit_exponent fm ! i) (map2 (-) x xc ! i))) *
                 val (call (fit_scope fm) (fit_derivative fm ! k) (map2 (-) x xc ! k))"
  have "bnd (np_broadcast (-) x xc) (\<lambda>d. gradient (fit_scope fm) (fit_exponent fm)
            (fit_derivative fm) (fit_n fm) d (int k)) = Inr (?G xc)"
    if "xc \<in> set (fit_centers fm)" for xc
  proof -
    have l: "length xc = length x" using rows that x by simp
    then have "fit_n fm \<le> length (map2 (-) x xc)" using x by simp
    from gradient_value[OF ws n this k] show ?thesis using l by (simp add: np_broadcast_def)
  qed
  then have "mapM (\<lambda>xc. bnd (np_broadcast (-) x xc) (\<lambda>d. gradient (fit_scope fm) (fit_exponent fm)
            (fit_derivative fm) (fit_n fm) d (int k))) (fit_centers fm) =
             Inr (map ?G (fit_centers fm))"
    by (rule mapM_all_Inr)
  then show ?thesis
    unfolding mean_force_def by (simp add: np_broadcast_def A map2_mult_map)
qed

text \<open>
  Claim C8.  Let the constructor have returned the analyzer and the fit have returned the
  model.  At a query point with one coordinate for each collective variable and for a
  direction \<open>dir\<close> among them, \<open>mean_force\<close> returns \<open>F\<close> and the potential, as a function
  of the coordinate \<open>dir\<close> of the point, has the derivative \<open>- F\<close> there.  Both are computed
  from the weights of the model; changing the constant that shifts the potential changes
  the potential by a constant and leaves the mean force as it is.  Numbers are real numbers.
\<close>

theorem mean_force_is_negative_gradient:
  assumes init: "Analyzer_init stats ufed df bins = Inr self"
    and fit: "free_energy_functions lstsq std self sigma = Inr fm"
    and x: "length x = length (variables ufed)"
    and dir: "0 \<le> dir" "dir < int (length (variables ufed))"
  shows "\<exists>P F.
     (\<forall>t. potential fm (x[nat dir := t]) = Inr (P t)) \<and>
     mean_force fm x dir = Inr F \<and>
     (P has_real_derivative - F) (at (x ! nat dir)) \<and>
     (\<forall>c. mean_force (fm\<lparr>fit_minimum := c\<rparr>) x dir = Inr F) \<and>
     (\<forall>c t. potential (fm\<lparr>fit_minimum := c\<rparr>) (x[nat dir := t]) = Inr (P t + fit_minimum fm - c))"
proof -
  let ?sc = "fit_scope fm" and ?ex = "fit_exponent fm" and ?de = "fit_derivative fm"
  let ?n = "fit_n fm" and ?cs = "fit_centers fm" and ?A = "fit_A fm"
  let ?k = "nat dir"
  note sh = fit_shape[OF fit]
  have u: "ufed_of self = ufed" by (rule Analyzer_init_shape(1)[OF init])
  have n: "?n = length (variables ufed)" using sh(2) u by simp
  have rows: "\<forall>xc \<in> set ?cs. length xc = ?n"
    using zip_star_row_length[of _ "centers self"] Analyzer_init_shape(2)[OF init] sh(3) n
    by auto
  have xl: "length x = ?n" using x n by simp
  have k: "?k < ?n" "int ?k = dir" using dir n by simp_all
  let ?S = "\<lambda>xc y. \<Sum>i\<leftarrow>[0..<?n]. val (call ?sc (?ex ! i) (map2 (-) y xc ! i))"
  let ?P = "\<lambda>t. (\<Sum>p\<leftarrow>zip ?A ?cs. fst p * exp (?S (snd p) (x[?k := t]))) - fit_minimum fm"
  let ?F = "- (\<Sum>p\<leftarrow>zip ?A ?cs. fst p * (exp (?S (snd p) x) *
                 val (call ?sc (?de ! ?k) (map2 (-) x (snd p) ! ?k))))"
  have pot: "potential fm' (x[?k := t]) = Inr (?P t + fit_minimum fm - fit_minimum fm')"
    if "fit_scope fm' = ?sc" "fit_exponent fm' = ?ex" "fit_derivative fm' = ?de"
       "fit_n fm' = ?n" "fit_centers fm' = ?cs" "fit_A fm' = ?A" for fm' t
    using potential_value[of fm' "x[?k := t]"] sh(1,6,7) rows xl that by simp
  have mf: "mean_force fm' x dir = Inr ?F"
    if "fit_scope fm' = ?sc" "fit_exponent fm' = ?ex" "fit_derivative fm' = ?de"
       "fit_n fm' = ?n" "fit_centers fm' = ?cs" "fit_A fm' = ?A" for fm'
    using mean_force_value[of fm' x ?k] sh(1,6,7) rows xl k that by simp
  have each: "((\<lambda>t. fst p * exp (?S (snd p) (x[?k := t]))) has_real_derivative
               fst p * (exp (?S (snd p) x) * val (call ?sc (?de ! ?k) (map2 (-) x (snd p) ! ?k))))
              (at (x ! ?k))" if "p \<in> set (zip ?A ?cs)" for p
  proof -
    have "snd p \<in> set ?cs" using that set_zip_rightD[of "fst p" "snd p" ?A ?cs] by simp
    then have "length (snd p) = ?n" using rows by simp
    from kernel_deriv[OF sh(1) sh(7) xl this k(1)] show ?thesis
      by (rule DERIV_cmult)
  qed
  have "((\<lambda>t. \<Sum>p\<leftarrow>zip ?A ?cs. fst p * exp (?S (snd p) (x[?k := t]))) has_real_derivative
         (\<Sum>p\<leftarrow>zip ?A ?cs. fst p * (exp (?S (snd p) x) *
                 val (call ?sc (?de ! ?k) (map2 (-) x (snd p) ! ?k))))) (at (x ! ?k))"
    by (rule DERIV_sum_list) (rule each)
  then have "((\<lambda>t. (\<Sum>p\<leftarrow>zip ?A ?cs. fst p * exp (?S (snd p) (x[?k := t]))) - fit_minimum fm)
         has_real_derivative
         (\<Sum>p\<leftarrow>zip ?A ?cs. fst p * (exp (?S (snd p) x) *
                 val (call ?sc (?de ! ?k) (map2 (-) x (snd p) ! ?k)))) - 0) (at (x ! ?k))"
    by (intro DERIV_diff DERIV_const)
  then have der: "(?P has_real_derivative - ?F) (at (x ! ?k))" by simp
  show ?thesis
  proof (rule exI[of _ ?P], rule exI[of _ ?F], intro conjI allI)
    show "potential fm (x[?k := t]) = Inr (?P t)" for t using pot[of fm t] by simp
    show "mean_force fm x dir = Inr ?F" using mf[of fm] by simp
    show "(?P has_real_derivative - ?F) (at (x ! ?k))" by (rule der)
    show "mean_force (fm\<lparr>fit_minimum := c\<rparr>) x dir = Inr ?F" for c
      using mf[of "fm\<lparr>fit_minimum := c\<rparr>"] by simp
    show "potential (fm\<lparr>fit_minimum := c\<rparr>) (x[?k := t]) = Inr (?P t + fit_minimum fm - c)" for c t
      using pot[of "fm\<lparr>fit_minimum := c\<rparr>" t] by simp
  qed
qed

theorem mean_force_is_negative_gradient_witness:
  "Analyzer_init one_cell_stats one_dim_ufed one_row_table (BinsScalar 1) = Inr one_dim_analyzer \<and>
   free_energy_functions lstsq_ones id one_dim_analyzer SigmaNone = Inr one_dim_fit \<and>
   length [2 :: real] = length (variables one_dim_ufed) \<and>
   (0::int) \<le> 0 \<and> (0::int) < int (length (variables one_dim_ufed)) \<and>
   (\<exists>P F. potential one_dim_fit [2] = Inr (P 2) \<and> mean_force one_dim_fit [2] 0 = Inr F \<and>
           (P has_real_derivative - F) (at 2))"
proof -
  have h1: "Analyzer_init one_cell_stats one_dim_ufed one_row_table (BinsScalar 1) =
            Inr one_dim_analyzer"
    by (simp add: Analyzer_init_def one_dim_ufed_def gaussian_cv_def one_row_table_def
        one_cell_stats_def np_where_positive_def py_index_def take_index_def
        one_dim_analyzer_def)
  have h2: "free_energy_functions lstsq_ones id one_dim_analyzer SigmaNone = Inr one_dim_fit"
    by (simp add: free_energy_functions_def variances_of_def one_dim_analyzer_def
        one_dim_ufed_def gaussian_cv_def py_index_def zip_star_def np_vstack_def np_hstack_def
        np_broadcast_def gradient_def kernel_def call_def lstsq_ones_def np_dot_def
        one_dim_fit_def enumerate_eq_zip)
  have h3: "length [2 :: real] = length (variables one_dim_ufed)"
    by (simp add: one_dim_ufed_def)
  have h4: "(0::int) \<le> 0" by simp
  have h5: "(0::int) < int (length (variables one_dim_ufed))" by (simp add: one_dim_ufed_def)
  from mean_force_is_negative_gradient[OF h1 h2 h3 h4 h5] obtain P F where
    p: "\<forall>t. potential one_dim_fit ([2][nat 0 := t]) = Inr (P t)"
    and f: "mean_force one_dim_fit [2] 0 = Inr F"
    and d: "(P has_real_derivative - F) (at ([2] ! nat 0))"
    by blast
  have "potential one_dim_fit [2] = Inr (P 2)" using p[rule_format, of 2] by simp
  moreover have "(P has_real_derivative - F) (at 2)" using d by simp
  ultimately show ?thesis using h1 h2 h3 h4 h5 f by blast
qed

end
